theory Spec2Isabelle
  imports Complex_Main "HOL-Library.Sublist"
begin

section \<open>The player of \<^verbatim>\<open>src/player.c\<close>\<close>

text \<open>
  A shallow embedding of \<^verbatim>\<open>intCb\<close>, \<^verbatim>\<open>openStream\<close>, \<^verbatim>\<open>openFilter\<close>,
  \<^verbatim>\<open>openDevice\<close>, \<^verbatim>\<open>play\<close>, \<^verbatim>\<open>finish\<close> and \<^verbatim>\<open>BarPlayerThread\<close>.
  The media libraries (libavformat, libavcodec, libavfilter, libao), the file system and
  the control thread are outside the source file: every answer they give is read from a
  \<open>world\<close> record, and every call the player makes that a property speaks about is
  written to a list of \<open>call\<close>s, in the order the calls are made.
\<close>

subsection \<open>Library constants\<close>

text \<open>
  \<^verbatim>\<open>libavutil/error.h\<close>: \<^verbatim>\<open>AVERROR_EOF = -MKTAG('E','O','F',' ')\<close> and
  \<^verbatim>\<open>AVERROR_INVALIDDATA = -MKTAG('I','N','D','A')\<close>;
  \<^verbatim>\<open>libavutil/avutil.h\<close>: \<^verbatim>\<open>AV_NOPTS_VALUE = INT64_MIN\<close>.
\<close>

definition AVERROR_EOF :: int where
  "AVERROR_EOF = - 541478725"

definition AVERROR_INVALIDDATA :: int where
  "AVERROR_INVALIDDATA = - 1094995529"

definition AV_NOPTS_VALUE :: int where
  "AV_NOPTS_VALUE = - 9223372036854775808"

subsection \<open>Data\<close>

text \<open>\<^verbatim>\<open>AVRational\<close>: numerator and denominator.\<close>

type_synonym rational = "int \<times> int"

text \<open>
  \<^verbatim>\<open>av_q2d(q)\<close> is \<^verbatim>\<open>q.num / (double) q.den\<close>. Times are kept as exact rationals;
  the rounding of the C doubles is not modelled.
\<close>

definition av_q2d :: "rational \<Rightarrow> rat" where
  "av_q2d q = of_int (fst q) / of_int (snd q)"

text \<open>The fields of \<^verbatim>\<open>AVPacket\<close> that the player reads or writes.\<close>

record packet =
  stream_index :: int
  pts :: int
  dts :: int

text \<open>
  A packet after \<^verbatim>\<open>av_init_packet\<close> or \<^verbatim>\<open>av_packet_unref\<close>: the time stamps are
  \<^verbatim>\<open>AV_NOPTS_VALUE\<close> and the stream index is 0.
\<close>

definition blank_pkt :: packet where
  "blank_pkt = \<lparr>stream_index = 0, pts = AV_NOPTS_VALUE, dts = AV_NOPTS_VALUE\<rparr>"

datatype player_mode = PLAYER_WAITING | PLAYER_PLAYING | PLAYER_FINISHED

datatype player_ret = PLAYER_RET_OK | PLAYER_RET_HARDFAIL | PLAYER_RET_SOFTFAIL

text \<open>
  \<^verbatim>\<open>player_t\<close>, with the fields \<^verbatim>\<open>player.c\<close> uses. A pointer field is a \<open>bool\<close>:
  \<open>True\<close> when the pointer is not \<^verbatim>\<open>NULL\<close>. \<open>save_dir\<close> is
  \<^verbatim>\<open>player->settings->save_dir\<close>, \<open>None\<close> when it is \<^verbatim>\<open>NULL\<close>.
  \<open>st_time_base\<close> stands for \<^verbatim>\<open>player->st->time_base\<close> and \<open>ost_id\<close> for
  \<^verbatim>\<open>player->ost->id\<close>; \<^verbatim>\<open>player->ofcx\<close> is never tested and has no field.
  \<open>songPlayed\<close> and \<open>songDuration\<close> hold the exact value of the expression
  assigned to them: \<^verbatim>\<open>player.h\<close>, which declares their C type, is not among the
  sources, so the conversion to that type is not modelled.
  \<open>quit_seen\<close> is no field of \<^verbatim>\<open>player_t\<close>: it is a history variable that no
  code reads, set whenever \<^verbatim>\<open>doQuit\<close> is set (by line 131 or by the control
  thread) and never cleared, so that it tells whether a quit was requested so far.
\<close>

record player =
  artist :: string
  album :: string
  title :: string
  save_dir :: "string option"
  interrupted :: int
  doQuit :: bool
  doPause :: bool
  mode :: player_mode
  fctx :: bool
  cctx :: bool
  fgraph :: bool
  fabuf :: bool
  fvolume :: bool
  fbufsink :: bool
  aoDev :: bool
  streamIdx :: int
  st_time_base :: rational
  lastTimestamp :: int
  songPlayed :: rat
  songDuration :: rat
  save_file :: bool
  tmp_filename :: string
  save_complete :: string
  ost_id :: int
  pkt_write :: packet
  quit_seen :: bool

text \<open>The calls to the libraries and to the system, with the arguments that matter.\<close>

datatype call =
    Avformat_open_input
  | Av_seek_frame int int
  | Mkdir_tmp
  | System string
  | Curl_cover string
  | Avformat_write_header
  | Av_read_frame int packet
  | Avcodec_send_packet "packet option"
  | Av_packet_unref
  | Av_write_frame packet
  | Av_read_pause
  | Av_read_play
  | Avcodec_receive_frame int
  | Av_buffersrc_write_frame int
  | Ao_play nat
  | Ao_close bool
  | Avfilter_graph_free
  | Avcodec_close
  | Avformat_close_input
  | Av_write_trailer

subsection \<open>\<^verbatim>\<open>intCb\<close>\<close>

text \<open>The callback returns 1 to abort the blocking call and 0 to go on.\<close>

definition intCb :: "player \<Rightarrow> int \<times> player" where
  "intCb p =
     (if interrupted p > 1 then (1, p\<lparr>doQuit := True\<rparr>)
      else if interrupted p \<noteq> 0 then (1, p\<lparr>interrupted := 0\<rparr>)
      else (0, p))"

subsection \<open>Tag strings\<close>

definition dquote :: char where
  "dquote = CHR 0x22"

definition backslash :: char where
  "backslash = CHR 0x5C"

text \<open>
  The loop of lines 230-241 (and 244-255, 602-613, 616-627, 630-641): the output index is
  \<^verbatim>\<open>i + offset\<close>, and \<^verbatim>\<open>offset\<close> grows by one at every double quote.
\<close>

fun sanitize_tag :: "string \<Rightarrow> string" where
  "sanitize_tag [] = []"
| "sanitize_tag (c # cs) =
     (if c = dquote then backslash # c # sanitize_tag cs
      else if c = CHR ''/'' then CHR '' '' # sanitize_tag cs
      else c # sanitize_tag cs)"

text \<open>
  The result is written to a \<^verbatim>\<open>char[100]\<close>; a result that does not fit with its
  terminator is a write past the array, which has no defined behaviour: \<open>None\<close>.
\<close>

definition sanitize_tag_buf :: "nat \<Rightarrow> string \<Rightarrow> string option" where
  "sanitize_tag_buf n s =
     (if length (sanitize_tag s) < n then Some (sanitize_tag s) else None)"

text \<open>The loop of lines 268-275 over \<^verbatim>\<open>save_filename\<close>.\<close>

definition filename_char :: "char \<Rightarrow> char" where
  "filename_char c =
     (if c = CHR ''/'' then CHR '' '' else if c = CHR 0x24 then CHR ''S'' else c)"

definition save_filename_of :: "string \<Rightarrow> string" where
  "save_filename_of t = map filename_char (t @ ''.aac'')"

text \<open>
  The rules of the specification. For a tag: slash to space, double quote escaped, every
  other byte kept. For a file name the dollar rule is added.
\<close>

definition spec_tag_rule :: "char \<Rightarrow> string" where
  "spec_tag_rule c =
     (if c = CHR ''/'' then '' '' else if c = dquote then [backslash, dquote] else [c])"

definition spec_filename_rule :: "char \<Rightarrow> string" where
  "spec_filename_rule c =
     (if c = CHR ''/'' then '' '' else if c = dquote then [backslash, dquote]
      else if c = CHR 0x24 then ''S'' else [c])"

definition spec_sanitize_tag :: "string \<Rightarrow> string" where
  "spec_sanitize_tag s = concat (map spec_tag_rule s)"

definition spec_sanitize_filename :: "string \<Rightarrow> string" where
  "spec_sanitize_filename s = concat (map spec_filename_rule s)"

subsection \<open>The world\<close>

text \<open>
  What the control thread and the library do while a call of the worker blocks:
  the control thread stores a value to \<^verbatim>\<open>interrupted\<close>, sets \<^verbatim>\<open>doQuit\<close> or
  writes \<^verbatim>\<open>doPause\<close>; libavformat calls the interrupt callback. The history
  variable \<open>quit_seen\<close> is set where \<^verbatim>\<open>doQuit\<close> is: by the control thread, and
  by the callback when it takes its first branch (the counter is above 1).
\<close>

datatype async = Ctl_interrupt int | Ctl_quit | Ctl_pause bool | Poll

fun run_async :: "async list \<Rightarrow> player \<Rightarrow> player" where
  "run_async [] p = p"
| "run_async (Ctl_interrupt n # as) p = run_async as (p\<lparr>interrupted := n\<rparr>)"
| "run_async (Ctl_quit # as) p = run_async as (p\<lparr>doQuit := True, quit_seen := True\<rparr>)"
| "run_async (Ctl_pause b # as) p = run_async as (p\<lparr>doPause := b\<rparr>)"
| "run_async (Poll # as) p =
     run_async as ((snd (intCb p))\<lparr>quit_seen := quit_seen p \<or> 1 < interrupted p\<rparr>)"

text \<open>
  One call of \<^verbatim>\<open>avcodec_receive_frame\<close> in the inner loop: its result, and for a
  frame the time stamp of the frame, the result of \<^verbatim>\<open>av_buffersrc_write_frame\<close>,
  the byte counts of the filtered frames that \<^verbatim>\<open>av_buffersink_get_frame\<close> hands
  out before it fails, and what happens meanwhile.
\<close>

record recv =
  recv_ret :: int
  frame_pts :: int
  src_ret :: int
  sink_bytes :: "nat list"
  during_play :: "async list"

text \<open>
  One turn of the outer loop: what happens during \<^verbatim>\<open>av_read_frame\<close>, its result,
  the packet it delivers, and the calls of the inner loop. A turn in drain mode reads
  no packet and uses \<open>recvs\<close> only.
\<close>

record turn =
  during_read :: "async list"
  read_ret :: int
  read_pkt :: packet
  recvs :: "recv list"

text \<open>
  The answers of one attempt (one pass through the \<^verbatim>\<open>do ... while\<close> body).
  \<open>time_base\<close> is the time base of the selected stream, \<open>codec_time_base i\<close> is
  \<^verbatim>\<open>fctx->streams[i]->codec->time_base\<close>, and \<open>mux_time_base\<close> is the time base of
  the one stream of the muxer after \<^verbatim>\<open>avformat_write_header\<close>.
\<close>

record world =
  during_open :: "async list"
  open_input_ret :: int
  find_stream_info_ret :: int
  best_stream :: int
  alloc_context_ok :: bool
  parameters_to_context_ret :: int
  decoder_found :: bool
  codec_open_ret :: int
  time_base :: rational
  duration :: int
  codec_time_base :: "int \<Rightarrow> rational"
  path_exists :: "string \<Rightarrow> bool"
  cover_fopen_ok :: bool
  avio_open_ret :: int
  new_stream_id :: int
  write_header_ret :: int
  mux_time_base :: rational
  graph_alloc_ok :: bool
  create_abuffer_ret :: int
  create_volume_ret :: int
  create_aformat_ret :: int
  create_sink_ret :: int
  link_ok :: bool
  graph_config_ret :: int
  ao_open_ok :: bool
  turns :: "turn list"

text \<open>
  Why a run of the model has no result: the script of answers ended while the code
  was still calling, an \<^verbatim>\<open>assert\<close> failed, or the code left defined behaviour
  (a write past a local array, \<^verbatim>\<open>save_dir[-1]\<close>, \<^verbatim>\<open>fclose(NULL)\<close>).
\<close>

datatype stop = Script_exhausted | Assert_failed | Undefined_behaviour

text \<open>The calls \<open>evs\<close> were made before the run \<open>r\<close>.\<close>

definition after_calls ::
  "call list \<Rightarrow> stop + ('a \<times> 'b \<times> call list) \<Rightarrow> stop + ('a \<times> 'b \<times> call list)" where
  "after_calls evs r =
     (case r of Inl e \<Rightarrow> Inl e | Inr (a, b, evs') \<Rightarrow> Inr (a, b, evs @ evs'))"

subsection \<open>\<^verbatim>\<open>openStream\<close>\<close>

text \<open>A string fits a \<^verbatim>\<open>char[n]\<close> when there is room for its terminator.\<close>

definition fits :: "nat \<Rightarrow> string \<Rightarrow> bool" where
  "fits n s = (length s < n)"

text \<open>Lines 301-303 and 596-598: the last three bytes become \<^verbatim>\<open>mp3\<close>.\<close>

definition to_mp3 :: "string \<Rightarrow> string" where
  "to_mp3 s = take (length s - 3) s @ ''mp3''"

definition save_path_of :: "string \<Rightarrow> string \<Rightarrow> string \<Rightarrow> string" where
  "save_path_of d a b =
     (if last d = CHR ''/'' then d else d @ ''/'') @ a @ ''/'' @ b @ ''/''"

definition mkdir_cmd :: "string \<Rightarrow> string" where
  "mkdir_cmd path = ''mkdir -p '' @ [dquote] @ path @ [dquote]"

text \<open>
  The local arrays of lines 206-209, 261 and 284 hold what \<^verbatim>\<open>sprintf\<close> writes to
  them: \<^verbatim>\<open>save_path\<close>, the \<^verbatim>\<open>mkdir\<close> command when it is built,
  \<^verbatim>\<open>save_filename\<close>, \<^verbatim>\<open>tmp_filename\<close>, \<^verbatim>\<open>jpgpath\<close> and
  \<^verbatim>\<open>save_complete\<close>.
\<close>

definition save_buffers_fit :: "world \<Rightarrow> string \<Rightarrow> string \<Rightarrow> bool" where
  "save_buffers_fit w save_path save_filename =
     (fits 1000 save_path
      \<and> (path_exists w save_path \<or> fits 1000 (mkdir_cmd save_path))
      \<and> fits 1000 save_filename
      \<and> fits 1000 (''/tmp/pianobar/'' @ save_filename)
      \<and> fits 500 (save_path @ ''/cover.jpg'')
      \<and> fits 1000 (save_path @ save_filename))"

text \<open>
  The calls of lines 259-331: the directory is made when \<^verbatim>\<open>stat\<close> fails, the
  temporary directory likewise, the cover is fetched, and the muxer is set up when
  \<^verbatim>\<open>access\<close> does not find the target.
\<close>

definition open_save_calls :: "world \<Rightarrow> string \<Rightarrow> string \<Rightarrow> call list" where
  "open_save_calls w save_path target =
     (if path_exists w save_path then [] else [System (mkdir_cmd save_path)])
     @ (if path_exists w ''/tmp/pianobar'' then [] else [Mkdir_tmp])
     @ [Curl_cover (save_path @ ''/cover.jpg'')]
     @ (if path_exists w target then [] else [Avformat_write_header])"

text \<open>
  Lines 205-336, for a configured directory \<open>d\<close>. The \<^verbatim>\<open>sprintf\<close> of line 257 reads
  the array it writes; the model takes the result the format describes. The results of
  \<^verbatim>\<open>av_guess_format\<close>, \<^verbatim>\<open>avio_open2\<close>, \<^verbatim>\<open>avformat_new_stream\<close>,
  \<^verbatim>\<open>avcodec_copy_context\<close> and \<^verbatim>\<open>avformat_write_header\<close> are not looked at by the code.
  An empty \<open>d\<close> makes line 222 read \<^verbatim>\<open>save_dir[-1]\<close>, and a cover file that cannot
  be opened makes line 297 call \<^verbatim>\<open>fclose(NULL)\<close>.
\<close>

definition open_save :: "world \<Rightarrow> string \<Rightarrow> player \<Rightarrow> stop + (player \<times> call list)" where
  "open_save w d p =
     (if d = [] then Inl Undefined_behaviour
      else case sanitize_tag_buf 100 (artist p) of None \<Rightarrow> Inl Undefined_behaviour
      | Some a \<Rightarrow>
      (case sanitize_tag_buf 100 (album p) of None \<Rightarrow> Inl Undefined_behaviour
      | Some b \<Rightarrow>
      (let save_path = save_path_of d a b;
           save_filename = save_filename_of (title p);
           target = to_mp3 (save_path @ save_filename)
       in if fits 1000 (if last d = CHR ''/'' then d else d @ ''/'')
             \<and> save_buffers_fit w save_path save_filename \<and> cover_fopen_ok w
          then Inr
            (p\<lparr>tmp_filename := ''/tmp/pianobar/'' @ save_filename, save_complete := target,
               save_file := \<not> path_exists w target,
               ost_id := (if path_exists w target then ost_id p else new_stream_id w)\<rparr>,
             open_save_calls w save_path target)
          else Inl Undefined_behaviour)))"

text \<open>
  \<^verbatim>\<open>avformat_open_input\<close> frees the context and clears the pointer when it fails.
  The \<^verbatim>\<open>softfail\<close> macro returns \<^verbatim>\<open>false\<close>.
\<close>

definition openStream :: "world \<Rightarrow> player \<Rightarrow> stop + (bool \<times> player \<times> call list)" where
  "openStream w p =
     (if fctx p then Inl Assert_failed
      else let p0 = run_async (during_open w) (p\<lparr>fctx := True\<rparr>) in
      if open_input_ret w < 0 then Inr (False, p0\<lparr>fctx := False\<rparr>, [Avformat_open_input])
      else if find_stream_info_ret w < 0 then Inr (False, p0, [Avformat_open_input])
      else let p1 = p0\<lparr>streamIdx := best_stream w\<rparr> in
      if best_stream w < 0 then Inr (False, p1, [Avformat_open_input])
      else let p2 = p1\<lparr>st_time_base := time_base w, cctx := alloc_context_ok w\<rparr> in
      if \<not> alloc_context_ok w then Inr (False, p2, [Avformat_open_input])
      else if parameters_to_context_ret w < 0 then Inr (False, p2, [Avformat_open_input])
      else if \<not> decoder_found w then Inr (False, p2, [Avformat_open_input])
      else if codec_open_ret w < 0 then Inr (False, p2, [Avformat_open_input])
      else let seek = (if lastTimestamp p2 > 0
                       then [Av_seek_frame (streamIdx p2) (lastTimestamp p2)] else []);
               p3 = p2\<lparr>songPlayed := 0,
                       songDuration := av_q2d (time_base w) * of_int (duration w)\<rparr>
      in case save_dir p3 of
           None \<Rightarrow> Inr (True, p3\<lparr>save_file := False\<rparr>, Avformat_open_input # seek)
         | Some d \<Rightarrow>
           (case open_save w d p3 of
              Inl e \<Rightarrow> Inl e
            | Inr (p4, evs) \<Rightarrow> Inr (True, p4, Avformat_open_input # seek @ evs)))"

subsection \<open>\<^verbatim>\<open>openFilter\<close> and \<^verbatim>\<open>openDevice\<close>\<close>

definition openFilter :: "world \<Rightarrow> player \<Rightarrow> bool \<times> player" where
  "openFilter w p =
     (if \<not> graph_alloc_ok w then (False, p\<lparr>fgraph := False\<rparr>)
      else let p1 = p\<lparr>fgraph := True\<rparr> in
      if create_abuffer_ret w < 0 then (False, p1\<lparr>fabuf := False\<rparr>)
      else let p2 = p1\<lparr>fabuf := True\<rparr> in
      if create_volume_ret w < 0 then (False, p2\<lparr>fvolume := False\<rparr>)
      else let p3 = p2\<lparr>fvolume := True\<rparr> in
      if create_aformat_ret w < 0 then (False, p3)
      else if create_sink_ret w < 0 then (False, p3\<lparr>fbufsink := False\<rparr>)
      else let p4 = p3\<lparr>fbufsink := True\<rparr> in
      if \<not> link_ok w then (False, p4)
      else if graph_config_ret w < 0 then (False, p4)
      else (True, p4))"

definition openDevice :: "world \<Rightarrow> player \<Rightarrow> bool \<times> player" where
  "openDevice w p = (ao_open_ok w, p\<lparr>aoDev := ao_open_ok w\<rparr>)"

subsection \<open>\<^verbatim>\<open>play\<close>\<close>

text \<open>
  \<^verbatim>\<open>av_rescale_q(a, bq, cq)\<close> of \<^verbatim>\<open>libavutil/mathematics.c\<close>: \<open>a * bq / cq\<close>
  rounded to the nearest integer, halfway cases away from zero; \<^verbatim>\<open>INT64_MIN\<close> for a
  divisor that is not positive. Intermediate values are taken to fit 64 bits.
\<close>

definition av_rescale_near :: "int \<Rightarrow> int \<Rightarrow> int \<Rightarrow> int" where
  "av_rescale_near a b c = (a * b + c div 2) div c"

definition av_rescale_q :: "int \<Rightarrow> rational \<Rightarrow> rational \<Rightarrow> int" where
  "av_rescale_q a bq cq =
     (let b = fst bq * snd cq; c = fst cq * snd bq in
      if c \<le> 0 \<or> b < 0 then - 9223372036854775808
      else if a < 0 then - av_rescale_near (- max a (- 9223372036854775807)) b c
      else av_rescale_near a b c)"

text \<open>
  Lines 470-477: what is handed to \<^verbatim>\<open>av_write_frame\<close> for the packet \<open>k\<close>. The
  time base the stamps are rescaled from is read from \<^verbatim>\<open>fctx->streams[0]\<close>, whichever
  stream is selected.
\<close>

definition tee_copy :: "world \<Rightarrow> player \<Rightarrow> packet \<Rightarrow> packet" where
  "tee_copy w p k =
     k\<lparr>stream_index := ost_id p,
       pts := av_rescale_q (pts k) (codec_time_base w 0) (mux_time_base w),
       dts := av_rescale_q (dts k) (codec_time_base w 0) (mux_time_base w)\<rparr>"

datatype drain = FILL | DRAIN | DONE

text \<open>
  The inner loop, lines 492-525. The arguments \<open>dm\<close> and \<open>ret\<close> are \<^verbatim>\<open>drainMode\<close>
  and \<^verbatim>\<open>ret\<close> on entry; the result gives both on exit.
\<close>

fun recv_loop ::
  "recv list \<Rightarrow> drain \<Rightarrow> int \<Rightarrow> player \<Rightarrow> stop + (drain \<times> int \<times> player \<times> call list)" where
  "recv_loop [] dm ret p =
     (if doQuit p then Inr (dm, ret, p, []) else Inl Script_exhausted)"
| "recv_loop (r # rs) dm ret p =
     (if doQuit p then Inr (dm, ret, p, [])
      else if recv_ret r = AVERROR_EOF
        then Inr (DONE, recv_ret r, p, [Avcodec_receive_frame (recv_ret r)])
      else if recv_ret r \<noteq> 0
        then Inr (dm, recv_ret r, p, [Avcodec_receive_frame (recv_ret r)])
      else if src_ret r < 0 then Inl Assert_failed
      else case recv_loop rs dm (src_ret r) (run_async (during_play r) p) of
             Inl e \<Rightarrow> Inl e
           | Inr (dm', ret', p', evs) \<Rightarrow>
               Inr (dm', ret', p',
                    Avcodec_receive_frame (recv_ret r)
                    # Av_buffersrc_write_frame
                        (if frame_pts r = AV_NOPTS_VALUE then 0 else frame_pts r)
                    # map Ao_play (sink_bytes r) @ evs))"

text \<open>
  The packet after \<^verbatim>\<open>av_read_frame\<close>: a failed call leaves it blank.
\<close>

definition left_pkt :: "turn \<Rightarrow> packet" where
  "left_pkt t = (if read_ret t < 0 then blank_pkt else read_pkt t)"

text \<open>
  Lines 446-463, the body of \<^verbatim>\<open>if (drainMode == FILL)\<close>. The tests are made in
  the order of the source: end of file, then the stream index, then the sign of
  \<^verbatim>\<open>ret\<close>. The call of \<^verbatim>\<open>av_read_frame\<close> is recorded with its result and the
  packet it leaves.
\<close>

datatype fill = Proceed | Skip | Break

definition fill_step ::
  "turn \<Rightarrow> player \<Rightarrow> fill \<times> drain \<times> int \<times> packet \<times> player \<times> call list" where
  "fill_step t p =
     (let p1 = run_async (during_read t) p;
          ret = read_ret t;
          pkt = left_pkt t
      in if ret = AVERROR_EOF
           then (Proceed, DRAIN, ret, pkt, p1,
                 [Av_read_frame ret pkt, Avcodec_send_packet None])
         else if stream_index pkt \<noteq> streamIdx p1
           then (Skip, FILL, ret, blank_pkt, p1, [Av_read_frame ret pkt, Av_packet_unref])
         else if ret < 0
           then (Break, FILL, ret, pkt, p1, [Av_read_frame ret pkt])
         else (Proceed, FILL, ret, pkt, p1,
               [Av_read_frame ret pkt, Avcodec_send_packet (Some pkt)]))"

text \<open>
  Lines 465-530, the rest of the turn. The wait of lines 485-487 ends when the control
  thread has cleared \<^verbatim>\<open>doPause\<close>.
\<close>

definition turn_rest ::
  "world \<Rightarrow> recv list \<Rightarrow> drain \<Rightarrow> int \<Rightarrow> packet \<Rightarrow> player
     \<Rightarrow> stop + (drain \<times> int \<times> player \<times> call list)" where
  "turn_rest w rs dm ret pkt p =
     (let p1 = p\<lparr>pkt_write := pkt\<rparr>;
          tee = (if save_file p1 then [Av_write_frame (tee_copy w p1 pkt)] else []);
          gate = (if doPause p1 then [Av_read_pause, Av_read_play] else []);
          p2 = (if doPause p1 then p1\<lparr>doPause := False\<rparr> else p1)
      in case recv_loop rs dm ret p2 of
           Inl e \<Rightarrow> Inl e
         | Inr (dm', ret', p3, evs) \<Rightarrow>
             Inr (dm', ret',
                  p3\<lparr>songPlayed := av_q2d (st_time_base p3) * of_int (pts pkt),
                     lastTimestamp := pts pkt\<rparr>,
                  tee @ gate @ evs @ [Av_packet_unref]))"

text \<open>
  The outer loop, lines 445-531: one turn of the script for each pass. The result is
  the value of \<^verbatim>\<open>ret\<close> when the loop is left.
\<close>

fun play_loop ::
  "world \<Rightarrow> turn list \<Rightarrow> drain \<Rightarrow> int \<Rightarrow> packet \<Rightarrow> player
     \<Rightarrow> stop + (int \<times> player \<times> call list)" where
  "play_loop w [] dm ret pkt p =
     (if doQuit p \<or> dm = DONE then Inr (ret, p, []) else Inl Script_exhausted)"
| "play_loop w (t # ts) dm ret pkt p =
     (if doQuit p \<or> dm = DONE then Inr (ret, p, [])
      else if dm = FILL then
        (case fill_step t p of
           (Break, dm1, ret1, pkt1, p1, ev1) \<Rightarrow> Inr (ret1, p1, ev1)
         | (Skip, dm1, ret1, pkt1, p1, ev1) \<Rightarrow>
             after_calls ev1 (play_loop w ts dm1 ret1 pkt1 p1)
         | (Proceed, dm1, ret1, pkt1, p1, ev1) \<Rightarrow>
             (case turn_rest w (recvs t) dm1 ret1 pkt1 p1 of
                Inl e \<Rightarrow> Inl e
              | Inr (dm2, ret2, p2, ev2) \<Rightarrow>
                  after_calls (ev1 @ ev2) (play_loop w ts dm2 ret2 blank_pkt p2)))
      else
        (case turn_rest w (recvs t) dm ret pkt p of
           Inl e \<Rightarrow> Inl e
         | Inr (dm2, ret2, p2, ev2) \<Rightarrow>
             after_calls ev2 (play_loop w ts dm2 ret2 blank_pkt p2)))"

definition play :: "world \<Rightarrow> player \<Rightarrow> stop + (int \<times> player \<times> call list)" where
  "play w p = play_loop w (turns w) FILL 0 blank_pkt p"

subsection \<open>\<^verbatim>\<open>finish\<close>\<close>

text \<open>
  \<^verbatim>\<open>ao_close\<close> is called whatever \<^verbatim>\<open>aoDev\<close> is; \<^verbatim>\<open>avformat_close_input\<close>
  sets the pointer it is given to \<^verbatim>\<open>NULL\<close>.
\<close>

definition finish :: "player \<Rightarrow> player \<times> call list" where
  "finish p =
     (p\<lparr>aoDev := False, fgraph := False, cctx := False, fctx := False\<rparr>,
      [Ao_close (aoDev p)]
      @ (if fgraph p then [Avfilter_graph_free] else [])
      @ (if cctx p then [Avcodec_close] else [])
      @ (if fctx p then [Avformat_close_input] else []))"

datatype resource = Device | Graph | Decoder | Demuxer

text \<open>
  What a call releases. libao's \<^verbatim>\<open>ao_close\<close> does nothing on a \<^verbatim>\<open>NULL\<close> device.
\<close>

fun released :: "call \<Rightarrow> resource list" where
  "released (Ao_close b) = (if b then [Device] else [])"
| "released Avfilter_graph_free = [Graph]"
| "released Avcodec_close = [Decoder]"
| "released Avformat_close_input = [Demuxer]"
| "released _ = []"

definition holds :: "player \<Rightarrow> resource \<Rightarrow> bool" where
  "holds p r =
     (case r of Device \<Rightarrow> aoDev p | Graph \<Rightarrow> fgraph p | Decoder \<Rightarrow> cctx p
      | Demuxer \<Rightarrow> fctx p)"

subsection \<open>\<^verbatim>\<open>BarPlayerThread\<close>\<close>

text \<open>
  Lines 567-581, the body of the \<^verbatim>\<open>do ... while\<close> up to the value of \<^verbatim>\<open>retry\<close>.
  \<^verbatim>\<open>openDevice\<close> is called only when \<^verbatim>\<open>openFilter\<close> succeeded.
  \<^verbatim>\<open>BarPlayerSetVolume\<close> changes no field of the player.
\<close>

definition cycle ::
  "world \<Rightarrow> player \<Rightarrow> player_ret \<Rightarrow> stop + (bool \<times> player_ret \<times> player \<times> call list)" where
  "cycle w p pret =
     (case openStream w p of
        Inl e \<Rightarrow> Inl e
      | Inr (ok, p1, ev1) \<Rightarrow>
          if \<not> ok then Inr (False, PLAYER_RET_SOFTFAIL, p1, ev1)
          else case openFilter w p1 of (okf, p2) \<Rightarrow>
          if \<not> okf then Inr (False, PLAYER_RET_HARDFAIL, p2, ev1)
          else case openDevice w p2 of (okd, p3) \<Rightarrow>
          if \<not> okd then Inr (False, PLAYER_RET_HARDFAIL, p3, ev1)
          else case play w (p3\<lparr>mode := PLAYER_PLAYING\<rparr>) of
                 Inl e \<Rightarrow> Inl e
               | Inr (ret, p4, ev2) \<Rightarrow>
                   Inr (ret = AVERROR_INVALIDDATA \<and> interrupted p4 = 0, pret, p4,
                        ev1 @ ev2))"

text \<open>One pass of the \<^verbatim>\<open>do ... while\<close> body: the cycle, then lines 582-583.\<close>

definition attempt ::
  "world \<Rightarrow> player \<Rightarrow> player_ret \<Rightarrow> stop + (bool \<times> player_ret \<times> player \<times> call list)" where
  "attempt w p pret =
     (case cycle w p pret of
        Inl e \<Rightarrow> Inl e
      | Inr (retry, pret', p1, ev1) \<Rightarrow>
          (case finish (p1\<lparr>mode := PLAYER_WAITING\<rparr>) of
             (p2, ev2) \<Rightarrow> Inr (retry, pret', p2, ev1 @ ev2)))"

text \<open>
  The \<^verbatim>\<open>do ... while (retry)\<close> loop. Nothing in the source bounds the number of
  passes, so the model takes one world for each pass and stops when they are used up.
\<close>

fun worker_loop ::
  "world list \<Rightarrow> player \<Rightarrow> player_ret \<Rightarrow> stop + (player_ret \<times> player \<times> call list)" where
  "worker_loop [] p pret = Inl Script_exhausted"
| "worker_loop (w # ws) p pret =
     (case attempt w p pret of
        Inl e \<Rightarrow> Inl e
      | Inr (retry, pret', p', evs) \<Rightarrow>
          if retry then after_calls evs (worker_loop ws p' pret')
          else Inr (pret', p', evs))"

definition ffmpeg_cmd :: "string \<Rightarrow> string \<Rightarrow> string" where
  "ffmpeg_cmd tmp tmpmp3 =
     ''ffmpeg -i '' @ [dquote] @ tmp @ [dquote]
     @ '' -c:a libmp3lame -ac 2 -q:a 2 '' @ [dquote] @ tmpmp3 @ [dquote]"

definition lame_cmd :: "string \<Rightarrow> string \<Rightarrow> string \<Rightarrow> string \<Rightarrow> string \<Rightarrow> string" where
  "lame_cmd t a b tmpmp3 target =
     ''lame  --vbr-new --preset standard --tt '' @ [dquote] @ t @ [dquote]
     @ '' --ta '' @ [dquote] @ a @ [dquote]
     @ '' --tl '' @ [dquote] @ b @ [dquote]
     @ '' --add-id3v2 '' @ [dquote] @ tmpmp3 @ [dquote]
     @ '' '' @ [dquote] @ target @ [dquote]"

text \<open>
  Lines 588-654. The title is sanitized into a local array (lines 630-641), but the
  command of line 651 is given \<^verbatim>\<open>player->title\<close>. Line 591 reads the context that
  line 590 freed; the model takes the read to give the pointer stored there.
  \<^verbatim>\<open>doQuit\<close> is read once, at line 588: what the control thread stores after that
  test changes no call of the worker and is not part of a run.
\<close>

definition post_play :: "player \<Rightarrow> stop + call list" where
  "post_play p =
     (if save_file p \<and> \<not> doQuit p then
        (if fits 1000 (tmp_filename p) \<and> 3 \<le> length (tmp_filename p) then
           (case (sanitize_tag_buf 100 (artist p), sanitize_tag_buf 100 (album p),
                  sanitize_tag_buf 100 (title p)) of
              (Some a, Some b, Some t) \<Rightarrow>
                (let tmpmp3 = to_mp3 (tmp_filename p);
                     c1 = ffmpeg_cmd (tmp_filename p) tmpmp3;
                     c2 = lame_cmd (title p) a b tmpmp3 (save_complete p)
                 in if fits 2000 c1 \<and> fits 2000 c2
                      then Inr [Av_write_trailer, System c1, System c2]
                    else Inl Undefined_behaviour)
            | _ \<Rightarrow> Inl Undefined_behaviour)
         else Inl Undefined_behaviour)
      else Inr [])"

definition BarPlayerThread ::
  "world list \<Rightarrow> player \<Rightarrow> stop + (player_ret \<times> player \<times> call list)" where
  "BarPlayerThread ws p =
     (case worker_loop ws p PLAYER_RET_OK of
        Inl e \<Rightarrow> Inl e
      | Inr (pret, p1, ev1) \<Rightarrow>
          (case post_play (p1\<lparr>mode := PLAYER_FINISHED\<rparr>) of
             Inl e \<Rightarrow> Inl e
           | Inr ev2 \<Rightarrow> Inr (pret, p1\<lparr>mode := PLAYER_FINISHED\<rparr>, ev1 @ ev2)))"

subsection \<open>Notions for the properties\<close>

text \<open>The external transcoding commands of lines 643-653.\<close>

fun is_transcode :: "call \<Rightarrow> bool" where
  "is_transcode (System c) = (take 6 c = ''ffmpeg'' \<or> take 4 c = ''lame'')"
| "is_transcode _ = False"

text \<open>The calls that close a saved song: the trailer and the transcoding commands.\<close>

definition closing_calls :: "call list \<Rightarrow> call list" where
  "closing_calls evs = filter (\<lambda>e. e = Av_write_trailer \<or> is_transcode e) evs"

text \<open>The packets sent to the decoder and the packets written to the muxer, in order.\<close>

fun sent_of :: "call \<Rightarrow> packet list" where
  "sent_of (Avcodec_send_packet (Some k)) = [k]"
| "sent_of _ = []"

fun written_of :: "call \<Rightarrow> packet list" where
  "written_of (Av_write_frame k) = [k]"
| "written_of _ = []"

text \<open>
  In a list of calls, every packet sent to the decoder is written to the muxer by the
  very next call, as the copy of lines 470-477.
\<close>

fun tee_follows :: "world \<Rightarrow> player \<Rightarrow> call list \<Rightarrow> bool" where
  "tee_follows w p [] = True"
| "tee_follows w p (Avcodec_send_packet (Some k) # es) =
     (case es of
        Av_write_frame k' # es' \<Rightarrow> k' = tee_copy w p k \<and> tee_follows w p es'
      | _ \<Rightarrow> False)"
| "tee_follows w p (e # es) = tee_follows w p es"

text \<open>
  In a list of calls, a packet is written to the muxer only by the call that follows the
  sending of a packet to the decoder, unless what is written is the copy of a blank
  packet.
\<close>

fun tee_only :: "world \<Rightarrow> player \<Rightarrow> call list \<Rightarrow> bool" where
  "tee_only w p [] = True"
| "tee_only w p (Avcodec_send_packet (Some k) # es) =
     (case es of
        Av_write_frame k' # es' \<Rightarrow> tee_only w p es'
      | _ \<Rightarrow> tee_only w p es)"
| "tee_only w p (Av_write_frame x # es) = (x = tee_copy w p blank_pkt \<and> tee_only w p es)"
| "tee_only w p (e # es) = tee_only w p es"

text \<open>The calls that read a packet or hand one to the decoder.\<close>

fun demux_call :: "call \<Rightarrow> bool" where
  "demux_call (Av_read_frame r k) = True"
| "demux_call (Avcodec_send_packet sp) = True"
| "demux_call _ = False"

fun is_read :: "call \<Rightarrow> bool" where
  "is_read (Av_read_frame r k) = True"
| "is_read _ = False"

text \<open>
  In a list of calls, with \<open>sel\<close> the index of the selected stream: a read that
  meets the end of the file is followed by the flush of the decoder; any other read that
  leaves a packet of another stream is followed by the release of the packet, and the
  release by the next read, if a call follows at all; a failed read that leaves a packet
  of the selected stream is the last call; a successful read of a packet of the selected
  stream is followed by the sending of that packet; and nothing is sent to the decoder
  but by the call that follows a read.
\<close>

fun reads_handled :: "int \<Rightarrow> call list \<Rightarrow> bool" where
  "reads_handled sel [] = True"
| "reads_handled sel (Av_read_frame r k # es) =
     (case es of
        [] \<Rightarrow> r \<noteq> AVERROR_EOF \<and> r < 0 \<and> stream_index k = sel
      | Avcodec_send_packet None # es' \<Rightarrow> r = AVERROR_EOF \<and> reads_handled sel es'
      | Avcodec_send_packet (Some k') # es' \<Rightarrow>
          r \<noteq> AVERROR_EOF \<and> 0 \<le> r \<and> k' = k \<and> stream_index k = sel
          \<and> reads_handled sel es'
      | Av_packet_unref # es' \<Rightarrow>
          r \<noteq> AVERROR_EOF \<and> stream_index k \<noteq> sel \<and> (es' = [] \<or> is_read (hd es'))
          \<and> reads_handled sel es'
      | _ \<Rightarrow> False)"
| "reads_handled sel (Avcodec_send_packet sp # es) = False"
| "reads_handled sel (e # es) = reads_handled sel es"

text \<open>
  The state in which \<^verbatim>\<open>play\<close> is entered and the calls made until then, when
  \<^verbatim>\<open>openStream\<close>, \<^verbatim>\<open>openFilter\<close> and \<^verbatim>\<open>openDevice\<close> all succeed.
\<close>

definition enter_play :: "world \<Rightarrow> player \<Rightarrow> (player \<times> call list) option" where
  "enter_play w p =
     (case openStream w p of
        Inl e \<Rightarrow> None
      | Inr (ok, p1, ev1) \<Rightarrow>
          if ok \<and> fst (openFilter w p1) \<and> fst (openDevice w (snd (openFilter w p1)))
            then Some (snd (openDevice w (snd (openFilter w p1)))\<lparr>mode := PLAYER_PLAYING\<rparr>, ev1)
          else None)"

text \<open>
  The pass in which the \<^verbatim>\<open>do ... while\<close> loop ends: its world, and the player and
  the value of \<^verbatim>\<open>pret\<close> on entry.
\<close>

fun last_pass ::
  "world list \<Rightarrow> player \<Rightarrow> player_ret \<Rightarrow> (world \<times> player \<times> player_ret) option" where
  "last_pass [] p pret = None"
| "last_pass (w # ws) p pret =
     (case attempt w p pret of
        Inl e \<Rightarrow> None
      | Inr (retry, pret', p', evs) \<Rightarrow>
          if retry then last_pass ws p' pret' else Some (w, p, pret))"

text \<open>
  The history variable agrees with \<^verbatim>\<open>doQuit\<close>: after a quit was requested
  \<^verbatim>\<open>doQuit\<close> is set, and \<^verbatim>\<open>doQuit\<close> is set only if it was set at the start,
  which \<open>d\<close> tells, or a quit was requested since.
\<close>

definition quit_history :: "bool \<Rightarrow> player \<Rightarrow> bool" where
  "quit_history d p = ((quit_seen p \<longrightarrow> doQuit p) \<and> (doQuit p \<longrightarrow> d \<or> quit_seen p))"

text \<open>The calls of a run, none when it has no result.\<close>

definition calls_of :: "stop + ('a \<times> 'b \<times> call list) \<Rightarrow> call list" where
  "calls_of r = (case r of Inl e \<Rightarrow> [] | Inr (a, b, evs) \<Rightarrow> evs)"

text \<open>The value and the player a run ends with, if it ends.\<close>

definition returned :: "stop + ('a \<times> 'b \<times> call list) \<Rightarrow> 'a option" where
  "returned r = (case r of Inl e \<Rightarrow> None | Inr (a, b, evs) \<Rightarrow> Some a)"

definition state_of :: "stop + ('a \<times> 'b \<times> call list) \<Rightarrow> 'b option" where
  "state_of r = (case r of Inl e \<Rightarrow> None | Inr (a, b, evs) \<Rightarrow> Some b)"

subsection \<open>Example sessions\<close>

text \<open>A player as the caller hands it over, with no directory to save to.\<close>

definition player0 :: player where
  "player0 =
     \<lparr>artist = ''AC/DC'', album = ''Back in Black'', title = ''Money$'', save_dir = None,
      interrupted = 0, doQuit = False, doPause = False, mode = PLAYER_WAITING,
      fctx = False, cctx = False, fgraph = False, fabuf = False, fvolume = False,
      fbufsink = False, aoDev = False, streamIdx = 0, st_time_base = (0, 1),
      lastTimestamp = 0, songPlayed = 0, songDuration = 0, save_file = False,
      tmp_filename = [], save_complete = [], ost_id = 0, pkt_write = blank_pkt,
      quit_seen = False\<rparr>"

text \<open>\<^verbatim>\<open>AVERROR(EAGAIN)\<close> on Linux.\<close>

definition AVERROR_EAGAIN :: int where
  "AVERROR_EAGAIN = - 11"

text \<open>
  A world in which every call succeeds and no path exists yet: one audio stream with
  index 0, time base 1/44100 and a duration of ten seconds. It plays no turn.
\<close>

definition world0 :: world where
  "world0 =
     \<lparr>during_open = [], open_input_ret = 0, find_stream_info_ret = 0, best_stream = 0,
      alloc_context_ok = True, parameters_to_context_ret = 0, decoder_found = True,
      codec_open_ret = 0, time_base = (1, 44100), duration = 441000,
      codec_time_base = (\<lambda>i. (1, 44100)), path_exists = (\<lambda>s. False), cover_fopen_ok = True,
      avio_open_ret = 0, new_stream_id = 0, write_header_ret = 0,
      mux_time_base = (1, 44100), graph_alloc_ok = True, create_abuffer_ret = 0,
      create_volume_ret = 0, create_aformat_ret = 0, create_sink_ret = 0, link_ok = True,
      graph_config_ret = 0, ao_open_ok = True, turns = []\<rparr>"

text \<open>The same player with a directory to save to.\<close>

definition player_save :: player where
  "player_save = player0\<lparr>save_dir := Some ''/out''\<rparr>"

text \<open>
  The same world, except that \<^verbatim>\<open>avio_open2\<close> and \<^verbatim>\<open>avformat_write_header\<close>
  fail: the temporary container is not created.
\<close>

definition world_mux_fails :: world where
  "world_mux_fails = world0\<lparr>avio_open_ret := - 2, write_header_ret := - 5\<rparr>"

text \<open>What \<^verbatim>\<open>openStream\<close> leaves and calls for \<open>player_save\<close> in these worlds.\<close>

definition saved_player :: player where
  "saved_player =
     player_save\<lparr>fctx := True, cctx := True, st_time_base := (1, 44100), songDuration := 10,
       save_file := True, tmp_filename := ''/tmp/pianobar/MoneyS.aac'',
       save_complete := ''/out/AC DC/Back in Black/MoneyS.mp3''\<rparr>"

definition saved_calls :: "call list" where
  "saved_calls =
     [Avformat_open_input, System (mkdir_cmd ''/out/AC DC/Back in Black/''), Mkdir_tmp,
      Curl_cover ''/out/AC DC/Back in Black//cover.jpg'', Avformat_write_header]"

text \<open>The calls of \<^verbatim>\<open>avcodec_receive_frame\<close>: end of stream, no frame yet, one frame.\<close>

definition eof_recv :: recv where
  "eof_recv =
     \<lparr>recv_ret = AVERROR_EOF, frame_pts = 0, src_ret = 0, sink_bytes = [],
      during_play = []\<rparr>"

definition again_recv :: recv where
  "again_recv =
     \<lparr>recv_ret = AVERROR_EAGAIN, frame_pts = 0, src_ret = 0, sink_bytes = [],
      during_play = []\<rparr>"

definition frame_recv :: "int \<Rightarrow> recv" where
  "frame_recv t =
     \<lparr>recv_ret = 0, frame_pts = t, src_ret = 0, sink_bytes = [4096], during_play = []\<rparr>"

text \<open>
  Turns: the end of the file, with a decoder that has nothing left; a packet that
  decodes to one frame; a read that fails with the code \<open>e\<close>.
\<close>

definition eof_turn :: turn where
  "eof_turn =
     \<lparr>during_read = [], read_ret = AVERROR_EOF, read_pkt = blank_pkt, recvs = [eof_recv]\<rparr>"

definition packet_turn :: "packet \<Rightarrow> turn" where
  "packet_turn k =
     \<lparr>during_read = [], read_ret = 0, read_pkt = k,
      recvs = [frame_recv (pts k), again_recv]\<rparr>"

definition error_turn :: "int \<Rightarrow> turn" where
  "error_turn e = \<lparr>during_read = [], read_ret = e, read_pkt = blank_pkt, recvs = []\<rparr>"

definition pkt1 :: packet where
  "pkt1 = \<lparr>stream_index = 0, pts = 1024, dts = 1024\<rparr>"

text \<open>A stream that is at its end before any packet; a stream of one packet.\<close>

definition world_empty :: world where
  "world_empty = world0\<lparr>turns := [eof_turn]\<rparr>"

definition world_one :: world where
  "world_one = world0\<lparr>turns := [packet_turn pkt1, eof_turn]\<rparr>"

text \<open>
  A stream whose second read fails: with \<^verbatim>\<open>AVERROR_INVALIDDATA\<close>, and with
  \<^verbatim>\<open>AVERROR(EIO)\<close>, which is -5.
\<close>

definition world_corrupt :: world where
  "world_corrupt = world0\<lparr>turns := [packet_turn pkt1, error_turn AVERROR_INVALIDDATA]\<rparr>"

definition world_io_error :: world where
  "world_io_error = world0\<lparr>turns := [packet_turn pkt1, error_turn (- 5)]\<rparr>"

text \<open>
  A stream during whose second read the user interrupts twice and the library polls
  the callback; the read then fails with \<^verbatim>\<open>AVERROR_EXIT\<close>.
\<close>

definition world_quit :: world where
  "world_quit =
     world0\<lparr>turns := [packet_turn pkt1,
                       \<lparr>during_read = [Ctl_interrupt 2, Poll], read_ret = - 1414092869,
                        read_pkt = blank_pkt, recvs = []\<rparr>]\<rparr>"

text \<open>
  The stream of one packet, with a muxer whose time base is 1/22050: a time stamp is
  halved on its way to the muxer.
\<close>

definition world_tee :: world where
  "world_tee = world_one\<lparr>mux_time_base := (1, 22050)\<rparr>"

text \<open>
  The same stream behind a packet of another stream, which has index 1.
\<close>

definition other_pkt :: packet where
  "other_pkt = \<lparr>stream_index = 1, pts = 7, dts = 7\<rparr>"

definition world_mixed :: world where
  "world_mixed =
     world_tee\<lparr>turns := [\<lparr>during_read = [], read_ret = 0, read_pkt = other_pkt, recvs = []\<rparr>,
                         packet_turn pkt1, eof_turn]\<rparr>"

text \<open>
  An input whose best audio stream is stream 1: the codec context of stream 0 has the
  time base 1/88200, that of stream 1 and the muxer have 1/44100. The stream has one
  packet.
\<close>

definition pkt_second :: packet where
  "pkt_second = \<lparr>stream_index = 1, pts = 1024, dts = 1024\<rparr>"

definition world_second :: world where
  "world_second =
     world0\<lparr>best_stream := 1,
            codec_time_base := (\<lambda>i. if i = 0 then (1, 88200) else (1, 44100)),
            turns := [packet_turn pkt_second, eof_turn]\<rparr>"

text \<open>The player \<open>player_save\<close> when \<^verbatim>\<open>play\<close> is entered.\<close>

definition playing_player :: player where
  "playing_player =
     saved_player\<lparr>fgraph := True, fabuf := True, fvolume := True, fbufsink := True,
       aoDev := True, mode := PLAYER_PLAYING\<rparr>"

text \<open>The calls of \<^verbatim>\<open>play\<close> in \<open>world_tee\<close>, and the player it leaves.\<close>

definition tee_calls :: "call list" where
  "tee_calls =
     [Av_read_frame 0 pkt1, Avcodec_send_packet (Some pkt1),
      Av_write_frame \<lparr>stream_index = 0, pts = 512, dts = 512\<rparr>,
      Avcodec_receive_frame 0, Av_buffersrc_write_frame 1024, Ao_play 4096,
      Avcodec_receive_frame AVERROR_EAGAIN, Av_packet_unref,
      Av_read_frame AVERROR_EOF blank_pkt, Avcodec_send_packet None,
      Av_write_frame
        \<lparr>stream_index = 0, pts = - 4611686018427387904, dts = - 4611686018427387904\<rparr>,
      Avcodec_receive_frame AVERROR_EOF, Av_packet_unref]"

definition drained_player :: player where
  "drained_player =
     playing_player\<lparr>songPlayed := av_q2d (1, 44100) * of_int AV_NOPTS_VALUE,
       lastTimestamp := AV_NOPTS_VALUE\<rparr>"

text \<open>The calls of \<^verbatim>\<open>play\<close> in \<open>world_mixed\<close>.\<close>

definition mixed_calls :: "call list" where
  "mixed_calls = [Av_read_frame 0 other_pkt, Av_packet_unref] @ tee_calls"

text \<open>The calls of \<^verbatim>\<open>finish\<close> after a pass that played.\<close>

definition closed_calls :: "call list" where
  "closed_calls = [Ao_close True, Avfilter_graph_free, Avcodec_close, Avformat_close_input]"

text \<open>
  The session that saves the stream of one packet: the calls that close the saved
  song, all the calls of the worker, and the player it leaves.
\<close>

definition closing_example :: "call list" where
  "closing_example =
     [Av_write_trailer,
      System (ffmpeg_cmd ''/tmp/pianobar/MoneyS.aac'' ''/tmp/pianobar/MoneyS.mp3''),
      System (lame_cmd ''Money$'' ''AC DC'' ''Back in Black'' ''/tmp/pianobar/MoneyS.mp3''
                ''/out/AC DC/Back in Black/MoneyS.mp3'')]"

definition saving_calls :: "call list" where
  "saving_calls = saved_calls @ tee_calls @ closed_calls @ closing_example"

definition finished_player :: player where
  "finished_player =
     drained_player\<lparr>fctx := False, cctx := False, fgraph := False, aoDev := False,
       mode := PLAYER_FINISHED\<rparr>"

text \<open>The session that the user quits during the second read.\<close>

definition quit_calls :: "call list" where
  "quit_calls =
     saved_calls
     @ [Av_read_frame 0 pkt1, Avcodec_send_packet (Some pkt1), Av_write_frame pkt1,
        Avcodec_receive_frame 0, Av_buffersrc_write_frame 1024, Ao_play 4096,
        Avcodec_receive_frame AVERROR_EAGAIN, Av_packet_unref,
        Av_read_frame (- 1414092869) blank_pkt]
     @ closed_calls"

definition quit_player :: player where
  "quit_player =
     playing_player\<lparr>interrupted := 2, doQuit := True, quit_seen := True,
       lastTimestamp := 1024,
       songPlayed := av_q2d (1, 44100) * 1024, pkt_write := pkt1,
       fctx := False, cctx := False, fgraph := False, aoDev := False,
       mode := PLAYER_FINISHED\<rparr>"

text \<open>
  The session that the user quits while the first frame plays: the control thread sets
  \<^verbatim>\<open>doQuit\<close> during \<^verbatim>\<open>ao_play\<close>.
\<close>

definition world_quit_playing :: world where
  "world_quit_playing =
     world0\<lparr>turns := [\<lparr>during_read = [], read_ret = 0, read_pkt = pkt1,
                        recvs = [\<lparr>recv_ret = 0, frame_pts = 1024, src_ret = 0,
                                  sink_bytes = [4096], during_play = [Ctl_quit]\<rparr>,
                                 again_recv]\<rparr>,
                       eof_turn]\<rparr>"

definition quit_playing_calls :: "call list" where
  "quit_playing_calls =
     saved_calls
     @ [Av_read_frame 0 pkt1, Avcodec_send_packet (Some pkt1), Av_write_frame pkt1,
        Avcodec_receive_frame 0, Av_buffersrc_write_frame 1024, Ao_play 4096,
        Av_packet_unref]
     @ closed_calls"

definition quit_playing_player :: player where
  "quit_playing_player = quit_player\<lparr>interrupted := 0\<rparr>"

text \<open>
  The player \<open>player0\<close> when \<^verbatim>\<open>play\<close> is entered; the calls of \<^verbatim>\<open>play\<close> up
  to a second read that fails with the code \<open>e\<close>, and the player it leaves; that
  player after \<^verbatim>\<open>finish\<close>, and after the next \<^verbatim>\<open>openStream\<close>.
\<close>

definition playing0 :: player where
  "playing0 =
     player0\<lparr>fctx := True, cctx := True, st_time_base := (1, 44100), songDuration := 10,
       fgraph := True, fabuf := True, fvolume := True, fbufsink := True, aoDev := True,
       mode := PLAYER_PLAYING\<rparr>"

definition failed_calls :: "int \<Rightarrow> call list" where
  "failed_calls e =
     [Av_read_frame 0 pkt1, Avcodec_send_packet (Some pkt1), Avcodec_receive_frame 0,
      Av_buffersrc_write_frame 1024, Ao_play 4096, Avcodec_receive_frame AVERROR_EAGAIN,
      Av_packet_unref, Av_read_frame e blank_pkt]"

definition failed_player :: player where
  "failed_player =
     playing0\<lparr>lastTimestamp := 1024, songPlayed := av_q2d (1, 44100) * 1024,
       pkt_write := pkt1\<rparr>"

definition waiting_player :: player where
  "waiting_player =
     failed_player\<lparr>fctx := False, cctx := False, fgraph := False, aoDev := False,
       mode := PLAYER_WAITING\<rparr>"

definition reopened_player :: player where
  "reopened_player = waiting_player\<lparr>fctx := True, cctx := True, songPlayed := 0\<rparr>"

text \<open>
  The stream whose second read fails with \<^verbatim>\<open>AVERROR_INVALIDDATA\<close> after the user
  has interrupted once and before the library polls the callback.
\<close>

definition world_corrupt_interrupted :: world where
  "world_corrupt_interrupted =
     world0\<lparr>turns := [packet_turn pkt1,
                       \<lparr>during_read = [Ctl_interrupt 1], read_ret = AVERROR_INVALIDDATA,
                        read_pkt = blank_pkt, recvs = []\<rparr>]\<rparr>"

text \<open>The player when \<^verbatim>\<open>play\<close> is entered again after the retry.\<close>

definition replaying_player :: player where
  "replaying_player = failed_player\<lparr>songPlayed := 0\<rparr>"

text \<open>A world in which the input cannot be opened.\<close>

definition world_unreachable :: world where
  "world_unreachable = world0\<lparr>open_input_ret := - 5\<rparr>"

text \<open>A title with a double quote in it.\<close>

definition quoted_title :: string where
  "quoted_title = [CHR ''a'', dquote, CHR ''b'']"

section \<open>Properties\<close>

subsection \<open>The interrupt callback\<close>

text \<open>
  C2. For a counter of 0 the callback returns 0 and changes nothing; for a counter of 1
  it returns 1 and resets the counter to 0; for a counter of 2 or more it returns 1 and
  sets \<^verbatim>\<open>doQuit\<close>, leaving the counter as it is.
\<close>

theorem intCb_semantics:
  "(interrupted p = 0 \<longrightarrow> intCb p = (0, p))
   \<and> (interrupted p = 1 \<longrightarrow> intCb p = (1, p\<lparr>interrupted := 0\<rparr>))
   \<and> (2 \<le> interrupted p \<longrightarrow> intCb p = (1, p\<lparr>doQuit := True\<rparr>))"
  by (simp add: intCb_def)

theorem intCb_semantics_witness:
  "intCb player0 = (0, player0)
   \<and> intCb (player0\<lparr>interrupted := 1\<rparr>) = (1, player0\<lparr>interrupted := 0\<rparr>)
   \<and> intCb (player0\<lparr>interrupted := 2\<rparr>) = (1, player0\<lparr>interrupted := 2, doQuit := True\<rparr>)"
  using intCb_semantics [of player0] intCb_semantics [of "player0\<lparr>interrupted := 1\<rparr>"]
    intCb_semantics [of "player0\<lparr>interrupted := 2\<rparr>"]
  by (simp add: player0_def)

subsection \<open>Releasing the resources\<close>

text \<open>
  C7. \<^verbatim>\<open>finish\<close> releases, in the order device, filter graph, decoder, demuxer,
  exactly those of the four that the player holds, whichever they are; afterwards the
  four pointers are \<^verbatim>\<open>NULL\<close>; a second call leaves the player as the first left it,
  and its only call is \<^verbatim>\<open>ao_close(NULL)\<close>, which releases nothing.
\<close>

theorem finish_releases_in_order:
  "concat (map released (snd (finish p))) = filter (holds p) [Device, Graph, Decoder, Demuxer]
   \<and> \<not> aoDev (fst (finish p)) \<and> \<not> fgraph (fst (finish p))
   \<and> \<not> cctx (fst (finish p)) \<and> \<not> fctx (fst (finish p))
   \<and> fst (finish (fst (finish p))) = fst (finish p)
   \<and> snd (finish (fst (finish p))) = [Ao_close False]
   \<and> concat (map released (snd (finish (fst (finish p))))) = []"
  by (simp add: finish_def holds_def)

subsection \<open>Sanitizing the tag strings\<close>

lemma sanitize_tag_spec: "sanitize_tag s = spec_sanitize_tag s"
  by (induction s) (simp_all add: spec_sanitize_tag_def spec_tag_rule_def dquote_def)

lemma filename_spec:
  "dquote \<notin> set s \<Longrightarrow> map filename_char s = spec_sanitize_filename s"
  by (induction s)
    (auto simp add: spec_sanitize_filename_def spec_filename_rule_def filename_char_def
      dquote_def)

lemma save_filename_chars: "save_filename_of t = map filename_char t @ ''.aac''"
  by (simp add: save_filename_of_def filename_char_def)

text \<open>
  C9 does not hold of the code. The loop over the file name (lines 268-275) has a branch
  for the slash and one for the dollar sign, but none for the double quote, which the
  loop over a tag (lines 230-255 and 602-641) escapes: a double quote in the title
  reaches \<^verbatim>\<open>tmp_filename\<close> and \<^verbatim>\<open>save_complete\<close> with no backslash before it,
  where the loop over a tag gives the same title an escaped quote. Both strings are put
  between double quotes in the commands of lines 643-652.
\<close>

theorem filename_loop_keeps_quote:
  "save_filename_of quoted_title = [CHR ''a'', dquote, CHR ''b''] @ ''.aac''
   \<and> spec_sanitize_filename (quoted_title @ ''.aac'')
       = [CHR ''a'', backslash, dquote, CHR ''b''] @ ''.aac''
   \<and> sanitize_tag quoted_title = [CHR ''a'', backslash, dquote, CHR ''b'']
   \<and> map_option tmp_filename (state_of (openStream world0 (player_save\<lparr>title := quoted_title\<rparr>)))
       = Some (''/tmp/pianobar/'' @ [CHR ''a'', dquote, CHR ''b''] @ ''.aac'')
   \<and> map_option save_complete (state_of (openStream world0 (player_save\<lparr>title := quoted_title\<rparr>)))
       = Some (''/out/AC DC/Back in Black/'' @ [CHR ''a'', dquote, CHR ''b''] @ ''.mp3'')"
  by (simp add: quoted_title_def world0_def player_save_def player0_def openStream_def
      open_save_def save_buffers_fit_def open_save_calls_def sanitize_tag_buf_def fits_def
      save_path_of_def save_filename_of_def to_mp3_def mkdir_cmd_def filename_char_def
      dquote_def av_q2d_def state_of_def backslash_def spec_sanitize_filename_def
      spec_filename_rule_def)

subsection \<open>What the asynchronous events leave alone\<close>

lemma run_async_keeps:
  "artist (run_async as p) = artist p \<and> album (run_async as p) = album p
   \<and> title (run_async as p) = title p \<and> save_dir (run_async as p) = save_dir p
   \<and> mode (run_async as p) = mode p \<and> fctx (run_async as p) = fctx p
   \<and> cctx (run_async as p) = cctx p \<and> fgraph (run_async as p) = fgraph p
   \<and> aoDev (run_async as p) = aoDev p \<and> streamIdx (run_async as p) = streamIdx p
   \<and> st_time_base (run_async as p) = st_time_base p
   \<and> lastTimestamp (run_async as p) = lastTimestamp p
   \<and> songPlayed (run_async as p) = songPlayed p
   \<and> save_file (run_async as p) = save_file p
   \<and> tmp_filename (run_async as p) = tmp_filename p
   \<and> save_complete (run_async as p) = save_complete p
   \<and> ost_id (run_async as p) = ost_id p"
  by (induction as p rule: run_async.induct) (simp_all add: intCb_def)

lemma run_async_quit: "doQuit p \<Longrightarrow> doQuit (run_async as p)"
  by (induction as p rule: run_async.induct) (simp_all add: intCb_def)

subsection \<open>The flag \<^verbatim>\<open>save_file\<close>\<close>

lemmas example_defs = world_mux_fails_def world0_def player_save_def player0_def
  saved_player_def saved_calls_def

lemmas open_defs = openStream_def open_save_def save_buffers_fit_def open_save_calls_def
  sanitize_tag_buf_def fits_def save_path_of_def
  save_filename_of_def to_mp3_def mkdir_cmd_def filename_char_def dquote_def av_q2d_def

lemma open_save_result:
  "open_save w d p = Inr (q, evs) \<Longrightarrow>
     save_file q = (\<not> path_exists w (save_complete q))
     \<and> save_complete q
        = to_mp3 (save_path_of d (sanitize_tag (artist p)) (sanitize_tag (album p))
                  @ save_filename_of (title p))"
  by (auto simp add: open_save_def sanitize_tag_buf_def Let_def
      split: if_split_asm option.split_asm)

lemma open_save_mux:
  "open_save (w\<lparr>avio_open_ret := a, write_header_ret := h\<rparr>) d p = open_save w d p"
  by (simp add: open_save_def save_buffers_fit_def open_save_calls_def Let_def
      cong: if_cong option.case_cong)

text \<open>
  C5, as the specification states it, fails: with a directory configured and no target
  file, \<^verbatim>\<open>openStream\<close> returns true with \<^verbatim>\<open>save_file\<close> set although
  \<^verbatim>\<open>avio_open2\<close> and \<^verbatim>\<open>avformat_write_header\<close> failed.
\<close>

theorem save_file_mux_failure_counterexample:
  "openStream world_mux_fails player_save = Inr (True, saved_player, saved_calls)
   \<and> save_dir player_save = Some ''/out''
   \<and> save_file saved_player
   \<and> avio_open_ret world_mux_fails < 0 \<and> write_header_ret world_mux_fails < 0"
  by (simp add: example_defs open_defs)

text \<open>
  C5, amended. When \<^verbatim>\<open>openStream\<close> returns true, \<^verbatim>\<open>save_file\<close> is true exactly
  when a directory was configured and the target path, built from the directory, the
  sanitized artist and album and the file name, did not exist; the results of
  \<^verbatim>\<open>avio_open2\<close> and \<^verbatim>\<open>avformat_write_header\<close> change nothing of what
  \<^verbatim>\<open>openStream\<close> returns, leaves or calls.
\<close>

theorem save_file_after_openStream:
  "openStream w p = Inr (True, q, evs) \<Longrightarrow>
     save_file q
       = (case save_dir p of None \<Rightarrow> False
          | Some d \<Rightarrow>
              \<not> path_exists w
                  (to_mp3 (save_path_of d (sanitize_tag (artist p)) (sanitize_tag (album p))
                           @ save_filename_of (title p))))
     \<and> openStream (w\<lparr>avio_open_ret := a, write_header_ret := h\<rparr>) p = openStream w p"
proof -
  assume r: "openStream w p = Inr (True, q, evs)"
  have mux: "openStream (w\<lparr>avio_open_ret := a, write_header_ret := h\<rparr>) p = openStream w p"
    by (simp add: openStream_def open_save_mux Let_def cong: if_cong option.case_cong)
  show ?thesis
  proof (cases "save_dir p")
    case None
    with r have "save_file q = False"
      by (auto simp add: openStream_def Let_def run_async_keeps split: if_splits)
    with None mux show ?thesis by simp
  next
    case (Some d)
    with r obtain p3 ev where "open_save w d p3 = Inr (q, ev)"
      and "artist p3 = artist p" and "album p3 = album p" and "title p3 = title p"
      by (auto simp add: openStream_def Let_def run_async_keeps split: if_splits sum.splits)
    with open_save_result [of w d p3 q ev] Some mux show ?thesis by simp
  qed
qed

theorem save_file_after_openStream_witness:
  "openStream world0 player_save = Inr (True, saved_player, saved_calls)
   \<and> save_file saved_player
   \<and> \<not> path_exists world0 ''/out/AC DC/Back in Black/MoneyS.mp3''
   \<and> openStream (world0\<lparr>avio_open_ret := - 2, write_header_ret := - 5\<rparr>) player_save
       = openStream world0 player_save"
proof -
  have r: "openStream world0 player_save = Inr (True, saved_player, saved_calls)"
    by (simp add: example_defs open_defs)
  have s: "save_file saved_player"
    by (simp add: saved_player_def)
  have e: "\<not> path_exists world0 ''/out/AC DC/Back in Black/MoneyS.mp3''"
    by (simp add: world0_def)
  have m: "openStream (world0\<lparr>avio_open_ret := - 2, write_header_ret := - 5\<rparr>) player_save
             = openStream world0 player_save"
    using save_file_after_openStream [OF r, where a = "- 2" and h = "- 5"]
    by (rule conjunct2)
  from r s e m show ?thesis by blast
qed

subsection \<open>The play loop, turn by turn\<close>

lemma after_calls_Inr:
  "after_calls evs r = Inr (a, b, c) \<longleftrightarrow> (\<exists>c'. r = Inr (a, b, c') \<and> c = evs @ c')"
  by (auto simp add: after_calls_def split: sum.splits)

lemma recv_loop_keeps:
  "recv_loop rs dm ret p = Inr (dm', ret', q, evs) \<Longrightarrow>
     save_file q = save_file p \<and> ost_id q = ost_id p \<and> streamIdx q = streamIdx p
     \<and> st_time_base q = st_time_base p \<and> lastTimestamp q = lastTimestamp p
     \<and> tmp_filename q = tmp_filename p \<and> save_complete q = save_complete p
     \<and> artist q = artist p \<and> album q = album p \<and> title q = title p
     \<and> save_dir q = save_dir p \<and> mode q = mode p
     \<and> fctx q = fctx p \<and> cctx q = cctx p \<and> fgraph q = fgraph p \<and> aoDev q = aoDev p
     \<and> (doQuit p \<longrightarrow> doQuit q)"
proof (induction rs arbitrary: dm ret p dm' ret' q evs)
  case Nil
  then show ?case by (simp split: if_splits)
next
  case (Cons r rs)
  show ?case
  proof (cases "doQuit p \<or> recv_ret r \<noteq> 0")
    case True
    with Cons.prems show ?thesis by (auto split: if_splits)
  next
    case False
    with Cons.prems obtain evs' where
      "recv_loop rs dm (src_ret r) (run_async (during_play r) p) = Inr (dm', ret', q, evs')"
      by (auto simp add: AVERROR_EOF_def split: if_splits sum.splits)
    from Cons.IH [OF this] show ?thesis
      by (simp add: run_async_keeps run_async_quit)
  qed
qed

lemma recv_loop_no_sent:
  "recv_loop rs dm ret p = Inr (dm', ret', q, evs) \<Longrightarrow>
     (\<forall>e \<in> set evs. sent_of e = [] \<and> written_of e = [] \<and> e \<noteq> Av_write_trailer
        \<and> \<not> is_transcode e \<and> \<not> demux_call e)"
proof (induction rs arbitrary: dm ret p dm' ret' q evs)
  case Nil
  then show ?case by (simp split: if_splits)
next
  case (Cons r rs)
  show ?case
  proof (cases "doQuit p \<or> recv_ret r \<noteq> 0")
    case True
    with Cons.prems show ?thesis by (auto split: if_splits)
  next
    case False
    with Cons.prems obtain evs' where
      a: "recv_loop rs dm (src_ret r) (run_async (during_play r) p) = Inr (dm', ret', q, evs')"
      and b: "evs = Avcodec_receive_frame (recv_ret r)
                    # Av_buffersrc_write_frame
                        (if frame_pts r = AV_NOPTS_VALUE then 0 else frame_pts r)
                    # map Ao_play (sink_bytes r) @ evs'"
      by (auto simp add: AVERROR_EOF_def split: if_splits sum.splits)
    from Cons.IH [OF a] b show ?thesis
      by auto
  qed
qed


lemma tee_copy_ost: "ost_id p = ost_id q \<Longrightarrow> tee_copy w p k = tee_copy w q k"
  by (simp add: tee_copy_def)

lemma tee_follows_ost:
  "ost_id p = ost_id q \<Longrightarrow> tee_follows w p evs = tee_follows w q evs"
  by (induction w p evs rule: tee_follows.induct)
    (simp_all add: tee_copy_def split: list.splits call.splits)

lemma tee_follows_append:
  "tee_follows w p a \<Longrightarrow> tee_follows w p b \<Longrightarrow> tee_follows w p (a @ b)"
  by (induction w p a rule: tee_follows.induct) (auto split: list.splits call.splits)

lemma tee_follows_no_sent:
  "\<forall>e \<in> set evs. sent_of e = [] \<Longrightarrow> tee_follows w p evs"
  by (induction w p evs rule: tee_follows.induct) simp_all

lemma turn_rest_keeps:
  "turn_rest w rs dm ret pkt p = Inr (dm', ret', q, evs) \<Longrightarrow>
     save_file q = save_file p \<and> ost_id q = ost_id p \<and> streamIdx q = streamIdx p
     \<and> st_time_base q = st_time_base p \<and> lastTimestamp q = pts pkt
     \<and> tmp_filename q = tmp_filename p \<and> save_complete q = save_complete p
     \<and> artist q = artist p \<and> album q = album p \<and> title q = title p
     \<and> save_dir q = save_dir p \<and> mode q = mode p
     \<and> fctx q = fctx p \<and> cctx q = cctx p \<and> fgraph q = fgraph p \<and> aoDev q = aoDev p
     \<and> (doQuit p \<longrightarrow> doQuit q)"
proof -
  assume a: "turn_rest w rs dm ret pkt p = Inr (dm', ret', q, evs)"
  define p2 where "p2 = (if doPause p then p\<lparr>pkt_write := pkt, doPause := False\<rparr>
                         else p\<lparr>pkt_write := pkt\<rparr>)"
  from a obtain q3 evs3 where b: "recv_loop rs dm ret p2 = Inr (dm', ret', q3, evs3)"
    and c: "q = q3\<lparr>songPlayed := av_q2d (st_time_base q3) * of_int (pts pkt),
                   lastTimestamp := pts pkt\<rparr>"
    by (auto simp add: turn_rest_def Let_def p2_def split: sum.splits if_splits)
  from recv_loop_keeps [OF b] c show ?thesis
    by (simp add: p2_def)
qed

lemma turn_rest_calls:
  "turn_rest w rs dm ret pkt p = Inr (dm', ret', q, evs) \<Longrightarrow>
     \<exists>rest. evs = (if save_file p then [Av_write_frame (tee_copy w p pkt)] else []) @ rest
       \<and> (\<forall>e \<in> set rest. sent_of e = [] \<and> written_of e = [] \<and> e \<noteq> Av_write_trailer
             \<and> \<not> is_transcode e \<and> \<not> demux_call e)"
proof -
  assume a: "turn_rest w rs dm ret pkt p = Inr (dm', ret', q, evs)"
  define p2 where "p2 = (if doPause p then p\<lparr>pkt_write := pkt, doPause := False\<rparr>
                         else p\<lparr>pkt_write := pkt\<rparr>)"
  from a obtain q3 evs3 where b: "recv_loop rs dm ret p2 = Inr (dm', ret', q3, evs3)"
    and c: "evs = (if save_file p then [Av_write_frame (tee_copy w p pkt)] else [])
                  @ (if doPause p then [Av_read_pause, Av_read_play] else [])
                  @ evs3 @ [Av_packet_unref]"
    by (auto simp add: turn_rest_def Let_def p2_def tee_copy_def split: sum.splits if_splits)
  from recv_loop_no_sent [OF b] c show ?thesis
    by auto
qed


lemma fill_step_eq:
  "fill_step t p =
     (if read_ret t = AVERROR_EOF
        then (Proceed, DRAIN, read_ret t, blank_pkt, run_async (during_read t) p,
              [Av_read_frame (read_ret t) (left_pkt t), Avcodec_send_packet None])
      else if stream_index (left_pkt t)
              \<noteq> streamIdx (run_async (during_read t) p)
        then (Skip, FILL, read_ret t, blank_pkt, run_async (during_read t) p,
              [Av_read_frame (read_ret t) (left_pkt t), Av_packet_unref])
      else if read_ret t < 0
        then (Break, FILL, read_ret t, blank_pkt, run_async (during_read t) p,
              [Av_read_frame (read_ret t) (left_pkt t)])
      else (Proceed, FILL, read_ret t, read_pkt t, run_async (during_read t) p,
            [Av_read_frame (read_ret t) (left_pkt t), Avcodec_send_packet (Some (read_pkt t))]))"
  by (simp add: fill_step_def left_pkt_def Let_def AVERROR_EOF_def)


lemma play_loop_stop:
  "doQuit p \<or> dm = DONE \<Longrightarrow> play_loop w ts dm ret pkt p = Inr (ret, p, [])"
  by (cases ts) simp_all

lemma play_loop_fill:
  "\<not> doQuit p \<Longrightarrow>
   play_loop w (t # ts) FILL ret pkt p =
     (if read_ret t = AVERROR_EOF
        then (case turn_rest w (recvs t) DRAIN (read_ret t) blank_pkt (run_async (during_read t) p) of
                Inl e \<Rightarrow> Inl e
              | Inr (dm2, ret2, p2, ev2) \<Rightarrow>
                  after_calls ([Av_read_frame (read_ret t) (left_pkt t), Avcodec_send_packet None] @ ev2)
                    (play_loop w ts dm2 ret2 blank_pkt p2))
      else if stream_index (left_pkt t)
              \<noteq> streamIdx (run_async (during_read t) p)
        then after_calls [Av_read_frame (read_ret t) (left_pkt t), Av_packet_unref]
               (play_loop w ts FILL (read_ret t) blank_pkt (run_async (during_read t) p))
      else if read_ret t < 0
        then Inr (read_ret t, run_async (during_read t) p, [Av_read_frame (read_ret t) (left_pkt t)])
      else (case turn_rest w (recvs t) FILL (read_ret t) (read_pkt t) (run_async (during_read t) p) of
                Inl e \<Rightarrow> Inl e
              | Inr (dm2, ret2, p2, ev2) \<Rightarrow>
                  after_calls ([Av_read_frame (read_ret t) (left_pkt t), Avcodec_send_packet (Some (read_pkt t))] @ ev2)
                    (play_loop w ts dm2 ret2 blank_pkt p2)))"
  by (simp add: fill_step_eq cong: if_cong sum.case_cong)

lemma play_loop_drain:
  "\<not> doQuit p \<Longrightarrow>
   play_loop w (t # ts) DRAIN ret pkt p =
     (case turn_rest w (recvs t) DRAIN ret pkt p of
        Inl e \<Rightarrow> Inl e
      | Inr (dm2, ret2, p2, ev2) \<Rightarrow>
          after_calls ev2 (play_loop w ts dm2 ret2 blank_pkt p2))"
  by simp


lemma play_loop_cases [consumes 1, case_names Stop Break Skip Proceed Drain]:
  assumes a: "play_loop w (t # ts) dm ret pkt p = Inr (r, q, evs)"
  obtains
    (Stop) "doQuit p \<or> dm = DONE" "r = ret" "q = p" "evs = []"
  | (Break) "\<not> doQuit p" "dm = FILL" "r = read_ret t" "q = run_async (during_read t) p"
      "evs = [Av_read_frame (read_ret t) (left_pkt t)]"
      "read_ret t \<noteq> AVERROR_EOF" "read_ret t < 0"
      "stream_index (left_pkt t) = streamIdx (run_async (during_read t) p)"
  | (Skip) evs' where "\<not> doQuit p" "dm = FILL"
      "play_loop w ts FILL (read_ret t) blank_pkt (run_async (during_read t) p)
         = Inr (r, q, evs')"
      "evs = [Av_read_frame (read_ret t) (left_pkt t), Av_packet_unref] @ evs'"
      "read_ret t \<noteq> AVERROR_EOF"
      "stream_index (left_pkt t) \<noteq> streamIdx (run_async (during_read t) p)"
  | (Proceed) dm1 sp dm2 ret2 p2 ev2 evs' where "\<not> doQuit p" "dm = FILL"
      "turn_rest w (recvs t) dm1 (read_ret t) (case sp of None \<Rightarrow> blank_pkt | Some k \<Rightarrow> k)
         (run_async (during_read t) p) = Inr (dm2, ret2, p2, ev2)"
      "play_loop w ts dm2 ret2 blank_pkt p2 = Inr (r, q, evs')"
      "evs = [Av_read_frame (read_ret t) (left_pkt t), Avcodec_send_packet sp] @ ev2 @ evs'"
      "case sp of None \<Rightarrow> read_ret t = AVERROR_EOF
       | Some k \<Rightarrow> k = read_pkt t \<and> 0 \<le> read_ret t
           \<and> stream_index k = streamIdx (run_async (during_read t) p)"
  | (Drain) dm2 ret2 p2 ev2 evs' where "\<not> doQuit p" "dm = DRAIN"
      "turn_rest w (recvs t) dm ret pkt p = Inr (dm2, ret2, p2, ev2)"
      "play_loop w ts dm2 ret2 blank_pkt p2 = Inr (r, q, evs')"
      "evs = ev2 @ evs'"
proof (cases "doQuit p \<or> dm = DONE")
  case True
  from play_loop_stop [OF True, of w "t # ts" ret pkt] a
  have "r = ret" "q = p" "evs = []" by simp_all
  with True show ?thesis by (rule Stop)
next
  case False
  then have nq: "\<not> doQuit p" and nd: "dm \<noteq> DONE" by simp_all
  define p1 where "p1 = run_async (during_read t) p"
  show ?thesis
  proof (cases dm)
    case FILL
    note eq = a [unfolded FILL play_loop_fill [OF nq], folded p1_def]
    show ?thesis
    proof (cases "read_ret t = AVERROR_EOF")
      case True
      with eq obtain dm2 ret2 p2 ev2 evs' where
        "turn_rest w (recvs t) DRAIN (read_ret t) blank_pkt p1 = Inr (dm2, ret2, p2, ev2)"
        "play_loop w ts dm2 ret2 blank_pkt p2 = Inr (r, q, evs')"
        "evs = [Av_read_frame (read_ret t) (left_pkt t), Avcodec_send_packet None] @ ev2 @ evs'"
        by (auto simp add: after_calls_Inr simp del: play_loop.simps split: sum.splits)
      with nq FILL True show ?thesis
        by (intro Proceed [of DRAIN None dm2 ret2 p2 ev2 evs']) (simp_all add: p1_def)
    next
      case False
      note ne = this
      show ?thesis
      proof (cases "stream_index (left_pkt t)
                      \<noteq> streamIdx p1")
        case True
        with eq ne obtain evs' where
          "play_loop w ts FILL (read_ret t) blank_pkt p1 = Inr (r, q, evs')"
          "evs = [Av_read_frame (read_ret t) (left_pkt t), Av_packet_unref] @ evs'"
          by (auto simp add: after_calls_Inr simp del: play_loop.simps)
        with nq FILL ne True show ?thesis
          by (intro Skip [of evs']) (simp_all add: p1_def)
      next
        case False
        note sel = this
        show ?thesis
        proof (cases "read_ret t < 0")
          case True
          with eq ne sel have "r = read_ret t" "q = p1" "evs = [Av_read_frame (read_ret t) (left_pkt t)]"
            by (auto simp del: play_loop.simps)
          with nq FILL ne sel True show ?thesis
            by (intro Break) (simp_all add: p1_def)
        next
          case False
          with eq ne sel obtain dm2 ret2 p2 ev2 evs' where
            "turn_rest w (recvs t) FILL (read_ret t) (read_pkt t) p1 = Inr (dm2, ret2, p2, ev2)"
            "play_loop w ts dm2 ret2 blank_pkt p2 = Inr (r, q, evs')"
            "evs = [Av_read_frame (read_ret t) (left_pkt t), Avcodec_send_packet (Some (read_pkt t))]
                   @ ev2 @ evs'"
            by (auto simp add: after_calls_Inr simp del: play_loop.simps split: sum.splits)
          with nq FILL sel False show ?thesis
            by (intro Proceed [of FILL "Some (read_pkt t)" dm2 ret2 p2 ev2 evs'])
              (simp_all add: p1_def left_pkt_def)
        qed
      qed
    qed
  next
    case DRAIN
    note eq = a [unfolded DRAIN play_loop_drain [OF nq]]
    from eq obtain dm2 ret2 p2 ev2 evs' where
      "turn_rest w (recvs t) DRAIN ret pkt p = Inr (dm2, ret2, p2, ev2)"
      "play_loop w ts dm2 ret2 blank_pkt p2 = Inr (r, q, evs')"
      "evs = ev2 @ evs'"
      by (auto simp add: after_calls_Inr simp del: play_loop.simps split: sum.splits)
    with nq DRAIN show ?thesis
      by (intro Drain [of dm2 ret2 p2 ev2 evs']) simp_all
  next
    case DONE
    with nd show ?thesis by simp
  qed
qed

lemma closing_calls_append [simp]:
  "closing_calls (a @ b) = closing_calls a @ closing_calls b"
  by (simp add: closing_calls_def)

lemma closing_calls_none:
  "\<forall>e \<in> set evs. e \<noteq> Av_write_trailer \<and> \<not> is_transcode e \<Longrightarrow> closing_calls evs = []"
  by (induction evs) (simp_all add: closing_calls_def)

lemma play_loop_keeps:
  "play_loop w ts dm ret pkt p = Inr (r, q, evs) \<Longrightarrow>
     save_file q = save_file p \<and> ost_id q = ost_id p \<and> streamIdx q = streamIdx p
     \<and> st_time_base q = st_time_base p
     \<and> tmp_filename q = tmp_filename p \<and> save_complete q = save_complete p
     \<and> artist q = artist p \<and> album q = album p \<and> title q = title p
     \<and> save_dir q = save_dir p \<and> mode q = mode p
     \<and> fctx q = fctx p \<and> cctx q = cctx p \<and> fgraph q = fgraph p \<and> aoDev q = aoDev p
     \<and> (doQuit p \<longrightarrow> doQuit q)"
proof (induction ts arbitrary: dm ret pkt p r q evs)
  case Nil
  then show ?case by (simp split: if_splits)
next
  case (Cons t ts)
  from Cons.prems show ?case
  proof (cases rule: play_loop_cases)
    case Stop
    then show ?thesis by simp
  next
    case Break
    then show ?thesis by (simp add: run_async_keeps)
  next
    case (Skip evs')
    from Cons.IH [OF Skip(3)] show ?thesis
      by (simp add: run_async_keeps Skip(1))
  next
    case (Proceed dm1 sp dm2 ret2 p2 ev2 evs')
    from Cons.IH [OF Proceed(4)] turn_rest_keeps [OF Proceed(3)] show ?thesis
      by (simp add: run_async_keeps Proceed(1))
  next
    case (Drain dm2 ret2 p2 ev2 evs')
    from Cons.IH [OF Drain(4)] turn_rest_keeps [OF Drain(3)] show ?thesis
      by (simp add: Drain(1))
  qed
qed

lemma play_loop_closing:
  "play_loop w ts dm ret pkt p = Inr (r, q, evs) \<Longrightarrow> closing_calls evs = []"
proof (induction ts arbitrary: dm ret pkt p r q evs)
  case Nil
  then show ?case by (simp add: closing_calls_def split: if_splits)
next
  case (Cons t ts)
  from Cons.prems show ?case
  proof (cases rule: play_loop_cases)
    case Stop
    then show ?thesis by (simp add: closing_calls_def)
  next
    case Break
    then show ?thesis by (simp add: closing_calls_def)
  next
    case (Skip evs')
    from Cons.IH [OF Skip(3)] Skip(4) show ?thesis
      by (simp add: closing_calls_def)
  next
    case (Proceed dm1 sp dm2 ret2 p2 ev2 evs')
    from turn_rest_calls [OF Proceed(3)] have "closing_calls ev2 = []"
      by (auto simp add: closing_calls_def filter_empty_conv)
    with Cons.IH [OF Proceed(4)] Proceed(5) show ?thesis
      by (simp add: closing_calls_def)
  next
    case (Drain dm2 ret2 p2 ev2 evs')
    from turn_rest_calls [OF Drain(3)] have "closing_calls ev2 = []"
      by (auto simp add: closing_calls_def filter_empty_conv)
    with Cons.IH [OF Drain(4)] Drain(5) show ?thesis
      by simp
  qed
qed

lemma turn_rest_tee:
  "turn_rest w rs dm ret pkt p = Inr (dm', ret', q, evs) \<Longrightarrow> tee_follows w p evs"
proof -
  assume "turn_rest w rs dm ret pkt p = Inr (dm', ret', q, evs)"
  from turn_rest_calls [OF this] have "\<forall>e \<in> set evs. sent_of e = []"
    by auto
  then show ?thesis by (rule tee_follows_no_sent)
qed

lemma play_loop_tee:
  "play_loop w ts dm ret pkt p = Inr (r, q, evs) \<Longrightarrow> save_file p \<Longrightarrow> tee_follows w p evs"
proof (induction ts arbitrary: dm ret pkt p r q evs)
  case Nil
  then show ?case by (simp split: if_splits)
next
  case (Cons t ts)
  from Cons.prems(1) show ?case
  proof (cases rule: play_loop_cases)
    case Stop
    then show ?thesis by simp
  next
    case Break
    then show ?thesis by simp
  next
    case (Skip evs')
    define p1 where "p1 = run_async (during_read t) p"
    have k: "save_file p1" "ost_id p1 = ost_id p"
      using Cons.prems(2) by (simp_all add: p1_def run_async_keeps)
    from Cons.IH [OF Skip(3) [folded p1_def] k(1)] have "tee_follows w p evs'"
      by (simp add: tee_follows_ost [OF k(2)])
    with Skip(4) show ?thesis by simp
  next
    case (Proceed dm1 sp dm2 ret2 p2 ev2 evs')
    define p1 where "p1 = run_async (during_read t) p"
    define k where "k = (case sp of None \<Rightarrow> blank_pkt | Some k \<Rightarrow> k)"
    have s1: "save_file p1" "ost_id p1 = ost_id p"
      using Cons.prems(2) by (simp_all add: p1_def run_async_keeps)
    note tr = Proceed(3) [folded p1_def k_def]
    from turn_rest_keeps [OF tr] s1 have s2: "save_file p2" "ost_id p2 = ost_id p"
      by simp_all
    from Cons.IH [OF Proceed(4) s2(1)] have rest: "tee_follows w p evs'"
      by (simp add: tee_follows_ost [OF s2(2)])
    from turn_rest_calls [OF tr] s1 obtain rest2 where
      e2: "ev2 = Av_write_frame (tee_copy w p k) # rest2"
      and n2: "\<forall>e \<in> set rest2. sent_of e = []"
      by (auto simp add: tee_copy_ost [OF s1(2)])
    from n2 have "tee_follows w p rest2" by (rule tee_follows_no_sent)
    from this rest have "tee_follows w p (rest2 @ evs')" by (rule tee_follows_append)
    with Proceed(5) e2 show ?thesis
      by (cases sp) (simp_all add: k_def)
  next
    case (Drain dm2 ret2 p2 ev2 evs')
    from turn_rest_keeps [OF Drain(3)] Cons.prems(2)
    have s2: "save_file p2" "ost_id p2 = ost_id p" by simp_all
    from Cons.IH [OF Drain(4) s2(1)] have rest: "tee_follows w p evs'"
      by (simp add: tee_follows_ost [OF s2(2)])
    from turn_rest_tee [OF Drain(3)] rest Drain(5) show ?thesis
      by (simp add: tee_follows_append)
  qed
qed

subsection \<open>Evaluating the example sessions\<close>

lemmas script_defs = world_tee_def world_one_def world_empty_def world_corrupt_def
  world_io_error_def world_quit_def packet_turn_def eof_turn_def error_turn_def
  frame_recv_def again_recv_def eof_recv_def pkt1_def playing_player_def tee_calls_def
  drained_player_def

lemmas play_defs = play_def fill_step_def left_pkt_def turn_rest_def tee_copy_def av_rescale_q_def
  av_rescale_near_def after_calls_def blank_pkt_def AVERROR_EOF_def AVERROR_EAGAIN_def
  AVERROR_INVALIDDATA_def AV_NOPTS_VALUE_def Let_def

lemmas worker_defs = BarPlayerThread_def attempt_def cycle_def finish_def post_play_def
  ffmpeg_cmd_def lame_cmd_def openFilter_def openDevice_def intCb_def
  calls_of_def returned_def state_of_def

subsection \<open>The packets sent to the decoder and written to the muxer\<close>

lemma play_loop_sent_selected:
  "play_loop w ts dm ret pkt p = Inr (r, q, evs) \<Longrightarrow>
     \<forall>k \<in> set (concat (map sent_of evs)). stream_index k = streamIdx p"
proof (induction ts arbitrary: dm ret pkt p r q evs)
  case Nil
  then show ?case by (simp split: if_splits)
next
  case (Cons t ts)
  from Cons.prems show ?case
  proof (cases rule: play_loop_cases)
    case Stop
    then show ?thesis by simp
  next
    case Break
    then show ?thesis by simp
  next
    case (Skip evs')
    from Cons.IH [OF Skip(3)] Skip(4) show ?thesis
      by (simp add: run_async_keeps)
  next
    case (Proceed dm1 sp dm2 ret2 p2 ev2 evs')
    from turn_rest_calls [OF Proceed(3)] have "concat (map sent_of ev2) = []"
      by auto
    moreover from turn_rest_keeps [OF Proceed(3)] have "streamIdx p2 = streamIdx p"
      by (simp add: run_async_keeps)
    ultimately show ?thesis
      using Cons.IH [OF Proceed(4)] Proceed(5,6)
      by (cases sp) (simp_all add: run_async_keeps)
  next
    case (Drain dm2 ret2 p2 ev2 evs')
    from turn_rest_calls [OF Drain(3)] have "concat (map sent_of ev2) = []"
      by auto
    moreover from turn_rest_keeps [OF Drain(3)] have "streamIdx p2 = streamIdx p"
      by simp
    ultimately show ?thesis
      using Cons.IH [OF Drain(4)] Drain(5) by simp
  qed
qed

lemma reads_handled_other:
  "\<not> demux_call e \<Longrightarrow> reads_handled sel (e # es) = reads_handled sel es"
  by (cases e) simp_all

lemma reads_handled_skip:
  "\<forall>e \<in> set a. \<not> demux_call e \<Longrightarrow> reads_handled sel (a @ b) = reads_handled sel b"
  by (induction a) (simp_all add: reads_handled_other)

lemma turn_rest_no_demux:
  assumes "turn_rest w rs dm ret pkt p = Inr (dm', ret', q, evs)"
  shows "\<forall>e \<in> set evs. \<not> demux_call e"
proof -
  from turn_rest_calls [OF assms] obtain rest where
    "evs = (if save_file p then [Av_write_frame (tee_copy w p pkt)] else []) @ rest"
    "\<forall>e \<in> set rest. \<not> demux_call e"
    by blast
  then show ?thesis by auto
qed

lemma play_loop_fill_head:
  assumes "play_loop w ts FILL ret pkt p = Inr (r, q, evs)"
  shows "evs = [] \<or> is_read (hd evs)"
proof (cases ts)
  case Nil
  with assms show ?thesis by (simp split: if_split_asm)
next
  case (Cons t ts')
  from assms [unfolded Cons] show ?thesis
    by (cases rule: play_loop_cases) simp_all
qed

lemma play_loop_reads:
  "play_loop w ts dm ret pkt p = Inr (r, q, evs) \<Longrightarrow> reads_handled (streamIdx p) evs"
proof (induction ts arbitrary: dm ret pkt p r q evs)
  case Nil
  then show ?case by (simp split: if_splits)
next
  case (Cons t ts)
  from Cons.prems show ?case
  proof (cases rule: play_loop_cases)
    case Stop
    then show ?thesis by simp
  next
    case Break
    then show ?thesis by (simp add: run_async_keeps)
  next
    case (Skip evs')
    from play_loop_fill_head [OF Skip(3)] Cons.IH [OF Skip(3)] Skip(4,5,6) show ?thesis
      by (simp add: run_async_keeps)
  next
    case (Proceed dm1 sp dm2 ret2 p2 ev2 evs')
    from turn_rest_keeps [OF Proceed(3)] have s: "streamIdx p2 = streamIdx p"
      by (simp add: run_async_keeps)
    from turn_rest_no_demux [OF Proceed(3)] Cons.IH [OF Proceed(4)] s
    have rest: "reads_handled (streamIdx p) (ev2 @ evs')"
      by (simp add: reads_handled_skip)
    show ?thesis
    proof (cases sp)
      case None
      with Proceed(5,6) rest show ?thesis by simp
    next
      case (Some k)
      with Proceed(6) have "k = left_pkt t" "0 \<le> read_ret t" "read_ret t \<noteq> AVERROR_EOF"
        "stream_index k = streamIdx p"
        by (auto simp add: left_pkt_def AVERROR_EOF_def run_async_keeps)
      with Proceed(5) Some rest show ?thesis by simp
    qed
  next
    case (Drain dm2 ret2 p2 ev2 evs')
    from turn_rest_keeps [OF Drain(3)] have s: "streamIdx p2 = streamIdx p"
      by simp
    from turn_rest_no_demux [OF Drain(3)] Cons.IH [OF Drain(4)] s Drain(5)
    show ?thesis
      by (simp add: reads_handled_skip)
  qed
qed

lemma tee_only_other:
  "\<not> demux_call e \<Longrightarrow> written_of e = [] \<Longrightarrow> tee_only w p (e # es) = tee_only w p es"
  by (cases e) simp_all

lemma tee_only_skip:
  "\<forall>e \<in> set a. \<not> demux_call e \<and> written_of e = [] \<Longrightarrow>
     tee_only w p (a @ b) = tee_only w p b"
  by (induction a) (simp_all add: tee_only_other)

lemma tee_only_ost:
  "ost_id p = ost_id q \<Longrightarrow> tee_only w p evs = tee_only w q evs"
  by (induction w p evs rule: tee_only.induct)
    (simp_all add: tee_copy_def split: list.splits call.splits)

lemma tee_only_after_send:
  "tee_only w p es \<Longrightarrow> tee_only w p (Avcodec_send_packet sp # es)"
  by (cases sp) (auto split: list.splits call.splits)

lemma turn_rest_tee_only:
  assumes "turn_rest w rs dm ret blank_pkt p = Inr (dm', ret', q, evs)"
  shows "tee_only w p (evs @ b) = tee_only w p b"
proof -
  from turn_rest_calls [OF assms] obtain rest where
    e: "evs = (if save_file p then [Av_write_frame (tee_copy w p blank_pkt)] else []) @ rest"
    and n: "\<forall>e \<in> set rest. \<not> demux_call e \<and> written_of e = []"
    by blast
  from tee_only_skip [OF n, of w p b] e show ?thesis by simp
qed

lemma play_loop_tee_only:
  "play_loop w ts dm ret blank_pkt p = Inr (r, q, evs) \<Longrightarrow> tee_only w p evs"
proof (induction ts arbitrary: dm ret p r q evs)
  case Nil
  then show ?case by (simp split: if_splits)
next
  case (Cons t ts)
  from Cons.prems show ?case
  proof (cases rule: play_loop_cases)
    case Stop
    then show ?thesis by simp
  next
    case Break
    then show ?thesis by simp
  next
    case (Skip evs')
    define p1 where "p1 = run_async (during_read t) p"
    have k: "ost_id p1 = ost_id p"
      by (simp add: p1_def run_async_keeps)
    from Cons.IH [OF Skip(3) [folded p1_def]] have "tee_only w p evs'"
      by (simp add: tee_only_ost [OF k])
    with Skip(4) show ?thesis by simp
  next
    case (Proceed dm1 sp dm2 ret2 p2 ev2 evs')
    define p1 where "p1 = run_async (during_read t) p"
    define k where "k = (case sp of None \<Rightarrow> blank_pkt | Some k \<Rightarrow> k)"
    have s1: "ost_id p1 = ost_id p"
      by (simp add: p1_def run_async_keeps)
    note tr = Proceed(3) [folded p1_def k_def]
    from turn_rest_keeps [OF tr] s1 have s2: "ost_id p2 = ost_id p"
      by simp
    from Cons.IH [OF Proceed(4)] have rest: "tee_only w p evs'"
      by (simp add: tee_only_ost [OF s2])
    from turn_rest_calls [OF tr] obtain rest2 where
      e2: "ev2 = (if save_file p1 then [Av_write_frame (tee_copy w p k)] else []) @ rest2"
      and n2: "\<forall>e \<in> set rest2. \<not> demux_call e \<and> written_of e = []"
      by (auto simp add: tee_copy_ost [OF s1])
    from tee_only_skip [OF n2, of w p evs'] rest have r2: "tee_only w p (rest2 @ evs')"
      by simp
    show ?thesis
    proof (cases sp)
      case None
      with Proceed(5) e2 r2 show ?thesis
        by (simp add: k_def)
    next
      case (Some k')
      show ?thesis
      proof (cases "save_file p1")
        case True
        with Proceed(5) e2 r2 Some show ?thesis by simp
      next
        case False
        with Proceed(5) e2 Some tee_only_after_send [OF r2, of "Some k'"] show ?thesis
          by simp
      qed
    qed
  next
    case (Drain dm2 ret2 p2 ev2 evs')
    from turn_rest_keeps [OF Drain(3)] have s2: "ost_id p2 = ost_id p" by simp
    from Cons.IH [OF Drain(4)] have rest: "tee_only w p evs'"
      by (simp add: tee_only_ost [OF s2])
    from turn_rest_tee_only [OF Drain(3), of evs'] rest Drain(5) show ?thesis
      by simp
  qed
qed

text \<open>
  C3, as the specification states it, fails. The copy is written after the packet has
  been sent to the decoder, not before: in the session that saves a stream of one packet
  behind a packet of another stream, the call after the read of the packet is
  \<^verbatim>\<open>avcodec_send_packet\<close> and the call after that is \<^verbatim>\<open>av_write_frame\<close>. No
  copy is written of the packet of the other stream, which is read as well. And the time
  base the stamps are rescaled from is that of the codec context of stream 0, which is
  not that of the input stream when another stream is selected: with stream 1 selected
  and the time bases 1/88200 for stream 0 and 1/44100 for stream 1 and the muxer, the
  stamp 1024 is written as 512.
\<close>

theorem tee_copy_before_send_counterexample:
  "enter_play world_mixed player_save = Some (playing_player, saved_calls)
   \<and> save_file playing_player
   \<and> calls_of (play world_mixed playing_player) =
       [Av_read_frame 0 other_pkt, Av_packet_unref,
        Av_read_frame 0 pkt1, Avcodec_send_packet (Some pkt1),
        Av_write_frame \<lparr>stream_index = 0, pts = 512, dts = 512\<rparr>,
        Avcodec_receive_frame 0, Av_buffersrc_write_frame 1024, Ao_play 4096,
        Avcodec_receive_frame AVERROR_EAGAIN, Av_packet_unref,
        Av_read_frame AVERROR_EOF blank_pkt, Avcodec_send_packet None,
        Av_write_frame
          \<lparr>stream_index = 0, pts = - 4611686018427387904, dts = - 4611686018427387904\<rparr>,
        Avcodec_receive_frame AVERROR_EOF, Av_packet_unref]
   \<and> enter_play world_second player_save = Some (playing_player\<lparr>streamIdx := 1\<rparr>, saved_calls)
   \<and> calls_of (play world_second (playing_player\<lparr>streamIdx := 1\<rparr>)) =
       [Av_read_frame 0 pkt_second, Avcodec_send_packet (Some pkt_second),
        Av_write_frame \<lparr>stream_index = 0, pts = 512, dts = 512\<rparr>,
        Avcodec_receive_frame 0, Av_buffersrc_write_frame 1024, Ao_play 4096,
        Avcodec_receive_frame AVERROR_EAGAIN, Av_packet_unref,
        Av_read_frame AVERROR_EOF blank_pkt, Avcodec_send_packet None,
        Av_write_frame
          \<lparr>stream_index = 0, pts = - 4611686018427387904, dts = - 4611686018427387904\<rparr>,
        Avcodec_receive_frame AVERROR_EOF, Av_packet_unref]
   \<and> av_rescale_q (pts pkt_second) (codec_time_base world_second 1)
        (mux_time_base world_second) = 1024"
  by (simp add: enter_play_def worker_defs example_defs open_defs script_defs play_defs
      world_mixed_def other_pkt_def world_second_def pkt_second_def)

text \<open>
  C3, amended. When saving is enabled, in every run of \<^verbatim>\<open>play\<close> that returns: a
  successfully read packet of the selected stream is sent to the decoder by the call
  after the read, and its copy is written to the muxer by the call after that; a packet
  of another stream is released by the call after its read, and the call after the
  release is the next read, so that it is neither sent nor written; nothing is sent to
  the decoder but such a packet and the flush at the end of the file, and nothing is
  written to the muxer but the copy of the packet just sent, copies of a blank packet
  left aside. In the copy \<^verbatim>\<open>stream_index\<close> is the id of the muxer's output stream,
  and when the selected stream is stream 0, \<^verbatim>\<open>pts\<close> and \<^verbatim>\<open>dts\<close> are rescaled by
  \<^verbatim>\<open>av_rescale_q\<close> from the time base of the codec context of the input stream to
  the time base of the muxer's output stream. For every selected stream the copy is the
  one of lines 470-477, which read the time base of the codec context of stream 0.
\<close>

theorem tee_copy_follows_send:
  "save_file p \<Longrightarrow> play w p = Inr (ret, q, evs) \<Longrightarrow>
     reads_handled (streamIdx p) evs
     \<and> tee_follows w p evs
     \<and> tee_only w p evs
     \<and> (\<forall>k \<in> set (concat (map sent_of evs)). stream_index k = streamIdx p)
     \<and> stream_index (tee_copy w p k) = ost_id p
     \<and> tee_copy w p k =
         k\<lparr>stream_index := ost_id p,
           pts := av_rescale_q (pts k) (codec_time_base w 0) (mux_time_base w),
           dts := av_rescale_q (dts k) (codec_time_base w 0) (mux_time_base w)\<rparr>
     \<and> (streamIdx p = 0 \<longrightarrow>
          pts (tee_copy w p k)
            = av_rescale_q (pts k) (codec_time_base w (streamIdx p)) (mux_time_base w)
          \<and> dts (tee_copy w p k)
            = av_rescale_q (dts k) (codec_time_base w (streamIdx p)) (mux_time_base w))"
  using play_loop_tee [of w "turns w" FILL 0 blank_pkt p ret q evs]
    play_loop_sent_selected [of w "turns w" FILL 0 blank_pkt p ret q evs]
    play_loop_reads [of w "turns w" FILL 0 blank_pkt p ret q evs]
    play_loop_tee_only [of w "turns w" FILL 0 p ret q evs]
  by (simp add: play_def tee_copy_def)

theorem tee_copy_follows_send_witness:
  "save_file playing_player
   \<and> play world_mixed playing_player = Inr (AVERROR_EOF, drained_player, mixed_calls)
   \<and> reads_handled (streamIdx playing_player) mixed_calls
   \<and> tee_follows world_mixed playing_player mixed_calls
   \<and> tee_only world_mixed playing_player mixed_calls
   \<and> concat (map sent_of mixed_calls) = [pkt1]
   \<and> concat (map written_of mixed_calls)
       = [tee_copy world_mixed playing_player pkt1, tee_copy world_mixed playing_player blank_pkt]
   \<and> stream_index pkt1 = streamIdx playing_player
   \<and> streamIdx playing_player = 0
   \<and> codec_time_base world_mixed 0 = (1, 44100) \<and> mux_time_base world_mixed = (1, 22050)
   \<and> tee_copy world_mixed playing_player pkt1 = \<lparr>stream_index = 0, pts = 512, dts = 512\<rparr>"
proof -
  have s: "save_file playing_player" "streamIdx playing_player = 0"
    by (simp_all add: example_defs script_defs)
  have h: "play world_mixed playing_player = Inr (AVERROR_EOF, drained_player, mixed_calls)"
    by (simp add: example_defs script_defs play_defs av_q2d_def world_mixed_def other_pkt_def
        mixed_calls_def)
  have c: "concat (map sent_of mixed_calls) = [pkt1]"
    "concat (map written_of mixed_calls)
       = [tee_copy world_mixed playing_player pkt1, tee_copy world_mixed playing_player blank_pkt]"
    by (simp_all add: mixed_calls_def example_defs script_defs play_defs world_mixed_def)
  have b: "codec_time_base world_mixed 0 = (1, 44100)" "mux_time_base world_mixed = (1, 22050)"
    by (simp_all add: world_mixed_def example_defs script_defs)
  have k: "pkt1\<lparr>stream_index := ost_id playing_player,
             pts := av_rescale_q (pts pkt1) (codec_time_base world_mixed 0)
                      (mux_time_base world_mixed),
             dts := av_rescale_q (dts pkt1) (codec_time_base world_mixed 0)
                      (mux_time_base world_mixed)\<rparr>
           = \<lparr>stream_index = 0, pts = 512, dts = 512\<rparr>"
    by (simp add: example_defs script_defs play_defs world_mixed_def)
  from tee_copy_follows_send [OF s(1) h, of pkt1] s h c b k show ?thesis
    by simp
qed

text \<open>
  C4 does not hold of the code. The write to the muxer (lines 465-479) is outside the
  test for FILL mode, so the turn that reads the end of the file, and every later turn
  of the drain, writes a copy of the blank packet. In the session that saves a stream of
  one packet, one packet is sent to the decoder and two are written to the muxer.
\<close>

theorem drain_turn_writes_blank_packet:
  "returned (BarPlayerThread [world_tee] player_save) = Some PLAYER_RET_OK
   \<and> concat (map sent_of (calls_of (BarPlayerThread [world_tee] player_save))) = [pkt1]
   \<and> concat (map written_of (calls_of (BarPlayerThread [world_tee] player_save))) =
       [tee_copy world_tee playing_player pkt1, tee_copy world_tee playing_player blank_pkt]"
  by (simp add: worker_defs example_defs open_defs script_defs play_defs)

text \<open>
  C8 does not hold of the code. For a stream that is at its end before any packet the
  worker returns \<^verbatim>\<open>PLAYER_RET_OK\<close>, but lines 527-528 run in the turn that reads the
  end of the file, with the blank packet: \<^verbatim>\<open>songPlayed\<close> is the time base times
  \<^verbatim>\<open>AV_NOPTS_VALUE\<close>, which is not 0, and \<^verbatim>\<open>lastTimestamp\<close> is
  \<^verbatim>\<open>AV_NOPTS_VALUE\<close>.
\<close>

theorem empty_stream_song_played:
  "returned (BarPlayerThread [world_empty] player0) = Some PLAYER_RET_OK
   \<and> map_option songPlayed (state_of (BarPlayerThread [world_empty] player0))
       = Some (av_q2d (1, 44100) * of_int AV_NOPTS_VALUE)
   \<and> map_option lastTimestamp (state_of (BarPlayerThread [world_empty] player0))
       = Some AV_NOPTS_VALUE
   \<and> av_q2d (1, 44100) * of_int AV_NOPTS_VALUE \<noteq> 0"
  by (simp add: worker_defs example_defs open_defs script_defs play_defs)

subsection \<open>One pass of the worker\<close>

lemma open_save_calls_closing: "closing_calls (open_save_calls w path target) = []"
  by (simp add: open_save_calls_def closing_calls_def mkdir_cmd_def)

lemma open_save_keeps:
  "open_save w d p = Inr (q, evs) \<Longrightarrow>
     closing_calls evs = []
     \<and> doQuit q = doQuit p \<and> lastTimestamp q = lastTimestamp p \<and> streamIdx q = streamIdx p
     \<and> fctx q = fctx p \<and> cctx q = cctx p \<and> fgraph q = fgraph p \<and> aoDev q = aoDev p
     \<and> interrupted q = interrupted p"
  by (auto simp add: open_save_def Let_def open_save_calls_closing
      split: if_split_asm option.split_asm)

lemma openStream_keeps:
  "openStream w p = Inr (ok, q, evs) \<Longrightarrow>
     closing_calls evs = []
     \<and> (doQuit p \<longrightarrow> doQuit q) \<and> lastTimestamp q = lastTimestamp p
     \<and> fgraph q = fgraph p \<and> aoDev q = aoDev p"
proof -
  assume a: "openStream w p = Inr (ok, q, evs)"
  define p0 where "p0 = run_async (during_open w) (p\<lparr>fctx := True\<rparr>)"
  have k0: "lastTimestamp p0 = lastTimestamp p" "fgraph p0 = fgraph p" "aoDev p0 = aoDev p"
    "doQuit p \<longrightarrow> doQuit p0"
    by (simp_all add: p0_def run_async_keeps run_async_quit)
  note b = a [unfolded openStream_def, folded p0_def]
  show ?thesis
  proof (cases ok)
    case False
    with b k0 show ?thesis
      by (auto simp add: Let_def closing_calls_def
          split: if_split_asm option.split_asm sum.split_asm)
  next
    case True
    show ?thesis
    proof (cases "save_dir p0")
      case None
      with b True k0 show ?thesis
        by (auto simp add: Let_def closing_calls_def split: if_split_asm)
    next
      case (Some d)
      with b True obtain p3 ev where s: "open_save w d p3 = Inr (q, ev)"
        and e: "evs = Avformat_open_input
                  # (if 0 < lastTimestamp p3
                     then [Av_seek_frame (streamIdx p3) (lastTimestamp p3)] else []) @ ev"
        and k: "lastTimestamp p3 = lastTimestamp p0" "fgraph p3 = fgraph p0"
          "aoDev p3 = aoDev p0" "doQuit p3 = doQuit p0"
        by (auto simp add: Let_def split: if_split_asm sum.split_asm)
      from open_save_keeps [OF s] e k k0 show ?thesis
        by (simp add: closing_calls_def)
    qed
  qed
qed


lemma openFilter_keeps:
  "doQuit (snd (openFilter w p)) = doQuit p
   \<and> lastTimestamp (snd (openFilter w p)) = lastTimestamp p
   \<and> save_file (snd (openFilter w p)) = save_file p
   \<and> interrupted (snd (openFilter w p)) = interrupted p
   \<and> aoDev (snd (openFilter w p)) = aoDev p
   \<and> quit_seen (snd (openFilter w p)) = quit_seen p"
  by (simp add: openFilter_def Let_def)

lemma finish_closing: "closing_calls (snd (finish p)) = []"
  by (simp add: finish_def closing_calls_def)

lemma finish_keeps:
  "doQuit (fst (finish p)) = doQuit p \<and> save_file (fst (finish p)) = save_file p
   \<and> lastTimestamp (fst (finish p)) = lastTimestamp p
   \<and> interrupted (fst (finish p)) = interrupted p"
  by (simp add: finish_def)

lemma play_keeps:
  "play w p = Inr (ret, q, evs) \<Longrightarrow>
     closing_calls evs = [] \<and> (doQuit p \<longrightarrow> doQuit q) \<and> save_file q = save_file p"
  using play_loop_keeps [of w "turns w" FILL 0 blank_pkt p ret q evs]
    play_loop_closing [of w "turns w" FILL 0 blank_pkt p ret q evs]
  by (simp add: play_def)


lemma cycle_soft:
  "openStream w p = Inr (False, p1, ev1) \<Longrightarrow>
     cycle w p pret = Inr (False, PLAYER_RET_SOFTFAIL, p1, ev1) \<and> enter_play w p = None"
  by (simp add: cycle_def enter_play_def)

lemma cycle_hard:
  "openStream w p = Inr (True, p1, ev1) \<Longrightarrow>
   \<not> (fst (openFilter w p1) \<and> ao_open_ok w) \<Longrightarrow>
     (\<exists>q. cycle w p pret = Inr (False, PLAYER_RET_HARDFAIL, q, ev1)
        \<and> doQuit q = doQuit p1 \<and> save_file q = save_file p1
        \<and> quit_seen q = quit_seen p1)
     \<and> enter_play w p = None"
  using openFilter_keeps [of w p1]
  by (cases "openFilter w p1") (auto simp add: cycle_def enter_play_def openDevice_def)

lemma cycle_played:
  "openStream w p = Inr (True, p1, ev1) \<Longrightarrow>
   fst (openFilter w p1) \<and> ao_open_ok w \<Longrightarrow>
     enter_play w p = Some (snd (openFilter w p1)\<lparr>aoDev := True, mode := PLAYER_PLAYING\<rparr>, ev1)
     \<and> cycle w p pret =
         (case play w (snd (openFilter w p1)\<lparr>aoDev := True, mode := PLAYER_PLAYING\<rparr>) of
            Inl e \<Rightarrow> Inl e
          | Inr (ret, p4, ev2) \<Rightarrow>
              Inr (ret = AVERROR_INVALIDDATA \<and> interrupted p4 = 0, pret, p4, ev1 @ ev2))"
  by (cases "openFilter w p1") (simp add: cycle_def enter_play_def openDevice_def)

lemma cycle_cases [consumes 1, case_names Soft Hard Played]:
  assumes a: "cycle w p pret = Inr (retry, pret', q, evs)"
  obtains
    (Soft) "openStream w p = Inr (False, q, evs)" "\<not> retry" "pret' = PLAYER_RET_SOFTFAIL"
      "enter_play w p = None"
  | (Hard) p1 where "openStream w p = Inr (True, p1, evs)" "\<not> retry"
      "pret' = PLAYER_RET_HARDFAIL" "enter_play w p = None"
      "doQuit q = doQuit p1" "save_file q = save_file p1" "quit_seen q = quit_seen p1"
  | (Played) p1 ev1 p3 ret ev2 where "openStream w p = Inr (True, p1, ev1)"
      "enter_play w p = Some (p3, ev1)" "play w p3 = Inr (ret, q, ev2)"
      "retry = (ret = AVERROR_INVALIDDATA \<and> interrupted q = 0)" "pret' = pret"
      "evs = ev1 @ ev2" "doQuit p3 = doQuit p1" "save_file p3 = save_file p1"
      "lastTimestamp p3 = lastTimestamp p1" "quit_seen p3 = quit_seen p1"
proof -
  from a obtain ok p1 ev1 where o: "openStream w p = Inr (ok, p1, ev1)"
    by (cases "openStream w p") (auto simp add: cycle_def)
  show ?thesis
  proof (cases ok)
    case False
    with o have o': "openStream w p = Inr (False, p1, ev1)" by simp
    from cycle_soft [OF o', of pret] a o' show ?thesis
      by (intro Soft) simp_all
  next
    case True
    with o have o': "openStream w p = Inr (True, p1, ev1)" by simp
    show ?thesis
    proof (cases "fst (openFilter w p1) \<and> ao_open_ok w")
      case False
      from cycle_hard [OF o' False, of pret] a show ?thesis
        by (intro Hard [of p1]) (auto simp add: o')
    next
      case True
      define p3 where "p3 = snd (openFilter w p1)\<lparr>aoDev := True, mode := PLAYER_PLAYING\<rparr>"
      note c = cycle_played [OF o' True, of pret, folded p3_def]
      from c a obtain ret ev2 where
        "play w p3 = Inr (ret, q, ev2)"
        "retry = (ret = AVERROR_INVALIDDATA \<and> interrupted q = 0)" "pret' = pret"
        "evs = ev1 @ ev2"
        by (cases "play w p3") auto
      with c o' openFilter_keeps [of w p1] show ?thesis
        by (intro Played [of p1 ev1 p3 ret ev2]) (simp_all add: p3_def)
    qed
  qed
qed

subsection \<open>The whole worker\<close>

lemma attempt_Inr:
  "attempt w p pret = Inr (retry, pret', q, evs) \<longleftrightarrow>
     (\<exists>p1 ev1. cycle w p pret = Inr (retry, pret', p1, ev1)
        \<and> q = fst (finish (p1\<lparr>mode := PLAYER_WAITING\<rparr>))
        \<and> evs = ev1 @ snd (finish (p1\<lparr>mode := PLAYER_WAITING\<rparr>)))"
  by (cases "cycle w p pret") (auto simp add: attempt_def split: prod.splits)

lemma attempt_keeps:
  assumes "attempt w p pret = Inr (retry, pret', q, evs)"
  shows "closing_calls evs = []" and "doQuit p \<longrightarrow> doQuit q"
    and "retry \<longrightarrow> pret' = pret"
proof -
  from assms obtain p1 ev1 where c: "cycle w p pret = Inr (retry, pret', p1, ev1)"
    and q: "q = fst (finish (p1\<lparr>mode := PLAYER_WAITING\<rparr>))"
    and e: "evs = ev1 @ snd (finish (p1\<lparr>mode := PLAYER_WAITING\<rparr>))"
    by (auto simp add: attempt_Inr)
  from c have "closing_calls ev1 = [] \<and> (doQuit p \<longrightarrow> doQuit p1) \<and> (retry \<longrightarrow> pret' = pret)"
  proof (cases rule: cycle_cases)
    case Soft
    with openStream_keeps [OF Soft(1)] show ?thesis by simp
  next
    case (Hard p0)
    with openStream_keeps [OF Hard(1)] show ?thesis by simp
  next
    case (Played p0 ev0 p3 ret ev2)
    with openStream_keeps [OF Played(1)] play_keeps [OF Played(3)] show ?thesis by simp
  qed
  with q e show "closing_calls evs = []" and "doQuit p \<longrightarrow> doQuit q"
    and "retry \<longrightarrow> pret' = pret"
    by (simp_all add: finish_closing finish_keeps)
qed

lemma worker_loop_keeps:
  "worker_loop ws p pret = Inr (r, q, evs) \<Longrightarrow>
     closing_calls evs = [] \<and> (doQuit p \<longrightarrow> doQuit q)"
proof (induction ws arbitrary: p pret r q evs)
  case Nil
  then show ?case by simp
next
  case (Cons w ws)
  from Cons.prems obtain retry pret' p' ev where
    a: "attempt w p pret = Inr (retry, pret', p', ev)"
    by (cases "attempt w p pret") (auto split: prod.splits)
  note k = attempt_keeps [OF a]
  show ?case
  proof (cases retry)
    case True
    with Cons.prems a obtain ev' where
      "worker_loop ws p' pret' = Inr (r, q, ev')" "evs = ev @ ev'"
      by (auto simp add: after_calls_Inr)
    with Cons.IH [of p' pret' r q ev'] k show ?thesis by simp
  next
    case False
    with Cons.prems a k show ?thesis by simp
  qed
qed

lemma is_transcode_cmds [simp]:
  "is_transcode (System (ffmpeg_cmd a b))" "is_transcode (System (lame_cmd t a b c d))"
  by (simp_all add: ffmpeg_cmd_def lame_cmd_def)

lemma post_play_calls:
  "post_play p = Inr evs \<Longrightarrow>
     evs = (if save_file p \<and> \<not> doQuit p
            then [Av_write_trailer,
                  System (ffmpeg_cmd (tmp_filename p) (to_mp3 (tmp_filename p))),
                  System (lame_cmd (title p) (sanitize_tag (artist p)) (sanitize_tag (album p))
                            (to_mp3 (tmp_filename p)) (save_complete p))]
            else [])"
  by (auto simp add: post_play_def Let_def sanitize_tag_buf_def
      split: if_split_asm option.split_asm)

lemmas session_defs = closed_calls_def closing_example_def saving_calls_def finished_player_def
  quit_calls_def quit_player_def

subsection \<open>A quit that was requested\<close>

lemma run_async_seen:
  "quit_history d p \<Longrightarrow> quit_history d (run_async as p)"
  by (induction as p rule: run_async.induct) (simp_all add: intCb_def quit_history_def)

lemma recv_loop_seen:
  "recv_loop rs dm ret p = Inr (dm', ret', q, evs) \<Longrightarrow> quit_history d p \<Longrightarrow>
     quit_history d q"
proof (induction rs arbitrary: dm ret p dm' ret' q evs)
  case Nil
  then show ?case by (simp split: if_splits)
next
  case (Cons r rs)
  show ?case
  proof (cases "doQuit p \<or> recv_ret r \<noteq> 0")
    case True
    with Cons.prems show ?thesis by (auto split: if_splits)
  next
    case False
    with Cons.prems obtain evs' where
      "recv_loop rs dm (src_ret r) (run_async (during_play r) p) = Inr (dm', ret', q, evs')"
      by (auto simp add: AVERROR_EOF_def split: if_splits sum.splits)
    from Cons.IH [OF this run_async_seen [OF Cons.prems(2)]] show ?thesis .
  qed
qed

lemma turn_rest_seen:
  assumes a: "turn_rest w rs dm ret pkt p = Inr (dm', ret', q, evs)"
    and i: "quit_history d p"
  shows "quit_history d q"
proof -
  define p2 where "p2 = (if doPause p then p\<lparr>pkt_write := pkt, doPause := False\<rparr>
                         else p\<lparr>pkt_write := pkt\<rparr>)"
  from a obtain q3 evs3 where b: "recv_loop rs dm ret p2 = Inr (dm', ret', q3, evs3)"
    and c: "q = q3\<lparr>songPlayed := av_q2d (st_time_base q3) * of_int (pts pkt),
                   lastTimestamp := pts pkt\<rparr>"
    by (auto simp add: turn_rest_def Let_def p2_def split: sum.splits if_splits)
  from i have "quit_history d p2" by (simp add: p2_def quit_history_def)
  from recv_loop_seen [OF b this] c show ?thesis by (simp add: quit_history_def)
qed

lemma play_loop_seen:
  "play_loop w ts dm ret pkt p = Inr (r, q, evs) \<Longrightarrow> quit_history d p \<Longrightarrow>
     quit_history d q"
proof (induction ts arbitrary: dm ret pkt p r q evs)
  case Nil
  then show ?case by (simp split: if_splits)
next
  case (Cons t ts)
  note i1 = run_async_seen [OF Cons.prems(2), of "during_read t"]
  from Cons.prems(1) show ?case
  proof (cases rule: play_loop_cases)
    case Stop
    with Cons.prems(2) show ?thesis by simp
  next
    case Break
    with i1 show ?thesis by simp
  next
    case (Skip evs')
    from Cons.IH [OF Skip(3) i1] show ?thesis .
  next
    case (Proceed dm1 sp dm2 ret2 p2 ev2 evs')
    from Cons.IH [OF Proceed(4) turn_rest_seen [OF Proceed(3) i1]] show ?thesis .
  next
    case (Drain dm2 ret2 p2 ev2 evs')
    from Cons.IH [OF Drain(4) turn_rest_seen [OF Drain(3) Cons.prems(2)]] show ?thesis .
  qed
qed

lemma open_save_seen:
  "open_save w d p = Inr (q, evs) \<Longrightarrow> quit_seen q = quit_seen p"
  by (auto simp add: open_save_def Let_def split: if_split_asm option.split_asm)

lemma openStream_seen:
  assumes a: "openStream w p = Inr (ok, q, evs)" and i: "quit_history d p"
  shows "quit_history d q"
proof -
  define p0 where "p0 = run_async (during_open w) (p\<lparr>fctx := True\<rparr>)"
  from i have "quit_history d (p\<lparr>fctx := True\<rparr>)" by (simp add: quit_history_def)
  from run_async_seen [OF this] have k0: "quit_history d p0"
    by (simp add: p0_def)
  note b = a [unfolded openStream_def, folded p0_def]
  show ?thesis
  proof (cases ok)
    case False
    with b k0 show ?thesis
      by (auto simp add: Let_def quit_history_def
          split: if_split_asm option.split_asm sum.split_asm)
  next
    case True
    show ?thesis
    proof (cases "save_dir p0")
      case None
      with b True k0 show ?thesis
        by (auto simp add: Let_def quit_history_def split: if_split_asm)
    next
      case (Some d)
      with b True obtain p3 ev where s: "open_save w d p3 = Inr (q, ev)"
        and k: "quit_seen p3 = quit_seen p0" "doQuit p3 = doQuit p0"
        by (auto simp add: Let_def split: if_split_asm sum.split_asm)
      from open_save_keeps [OF s] open_save_seen [OF s] k k0 show ?thesis
        by (simp add: quit_history_def)
    qed
  qed
qed

lemma finish_seen: "quit_seen (fst (finish p)) = quit_seen p"
  by (simp add: finish_def)

lemma cycle_seen:
  assumes a: "cycle w p pret = Inr (retry, pret', q, evs)" and i: "quit_history d p"
  shows "quit_history d q"
  using a
proof (cases rule: cycle_cases)
  case Soft
  from openStream_seen [OF Soft(1) i] show ?thesis .
next
  case (Hard p1)
  from openStream_seen [OF Hard(1) i] Hard(5,7) show ?thesis
    by (simp add: quit_history_def)
next
  case (Played p1 ev1 p3 ret ev2)
  from openStream_seen [OF Played(1) i] Played(7,10) have "quit_history d p3"
    by (simp add: quit_history_def)
  from play_loop_seen [OF Played(3) [unfolded play_def] this] show ?thesis .
qed

lemma attempt_seen:
  assumes "attempt w p pret = Inr (retry, pret', q, evs)" and i: "quit_history d p"
  shows "quit_history d q"
proof -
  from assms obtain p1 ev1 where c: "cycle w p pret = Inr (retry, pret', p1, ev1)"
    and q: "q = fst (finish (p1\<lparr>mode := PLAYER_WAITING\<rparr>))"
    by (auto simp add: attempt_Inr)
  from cycle_seen [OF c i] q show ?thesis
    by (simp add: finish_keeps finish_seen quit_history_def)
qed

lemma worker_loop_seen:
  "worker_loop ws p pret = Inr (r, q, evs) \<Longrightarrow> quit_history d p \<Longrightarrow>
     quit_history d q"
proof (induction ws arbitrary: p pret r q evs)
  case Nil
  then show ?case by simp
next
  case (Cons w ws)
  from Cons.prems(1) obtain retry pret' p' ev where
    a: "attempt w p pret = Inr (retry, pret', p', ev)"
    by (cases "attempt w p pret") (auto split: prod.splits)
  note k = attempt_seen [OF a Cons.prems(2)]
  show ?case
  proof (cases retry)
    case True
    with Cons.prems(1) a obtain ev' where
      "worker_loop ws p' pret' = Inr (r, q, ev')"
      by (auto simp add: after_calls_Inr)
    from Cons.IH [OF this k] show ?thesis .
  next
    case False
    with Cons.prems(1) a k show ?thesis by simp
  qed
qed

text \<open>
  C6. In a run of the worker that returns, let \<open>p1\<close> be the player with which the
  \<^verbatim>\<open>do ... while\<close> loop is left: the player that line 588 tests. The trailer is
  written exactly once, followed by the two transcoding commands, when \<open>p1\<close> has
  \<^verbatim>\<open>save_file\<close> set and \<^verbatim>\<open>doQuit\<close> clear, and neither the trailer nor a
  transcoding command occurs anywhere in the run otherwise. \<^verbatim>\<open>doQuit\<close> is set at
  that test exactly when a quit was requested before the loop is left: when
  \<^verbatim>\<open>doQuit\<close> was set as the worker started, or was set during any pass by the
  callback or by the control thread (while the input is opened, while a packet is read,
  while a frame plays). So whenever a quit was requested, no trailer is written and no
  transcoding command is run. The history of the quit requests starts with the worker.
\<close>

theorem trailer_only_without_quit:
  assumes w: "worker_loop ws p PLAYER_RET_OK = Inr (r, p1, ev1)"
    and a: "BarPlayerThread ws p = Inr (r', q, evs)"
    and n: "\<not> quit_seen p"
  shows "closing_calls evs =
       (if save_file p1 \<and> \<not> doQuit p1
        then [Av_write_trailer,
              System (ffmpeg_cmd (tmp_filename p1) (to_mp3 (tmp_filename p1))),
              System (lame_cmd (title p1) (sanitize_tag (artist p1)) (sanitize_tag (album p1))
                        (to_mp3 (tmp_filename p1)) (save_complete p1))]
        else [])
     \<and> count_list evs Av_write_trailer = (if save_file p1 \<and> \<not> doQuit p1 then 1 else 0)
     \<and> doQuit p1 = (doQuit p \<or> quit_seen p1)
     \<and> (doQuit p \<or> quit_seen p1 \<longrightarrow>
          closing_calls evs = [] \<and> count_list evs Av_write_trailer = 0)"
proof -
  define pf where "pf = p1\<lparr>mode := PLAYER_FINISHED\<rparr>"
  from a w obtain ev2 where pp: "post_play pf = Inr ev2" and e: "evs = ev1 @ ev2"
    by (auto simp add: BarPlayerThread_def pf_def split: sum.split_asm)
  note k = worker_loop_keeps [OF w]
  from n have "quit_history (doQuit p) p" by (simp add: quit_history_def)
  note s = worker_loop_seen [OF w this]
  have c: "ev2 = (if save_file p1 \<and> \<not> doQuit p1
            then [Av_write_trailer,
                  System (ffmpeg_cmd (tmp_filename p1) (to_mp3 (tmp_filename p1))),
                  System (lame_cmd (title p1) (sanitize_tag (artist p1))
                            (sanitize_tag (album p1)) (to_mp3 (tmp_filename p1))
                            (save_complete p1))]
            else [])"
    using post_play_calls [OF pp] by (simp add: pf_def)
  have t: "count_list ev1 Av_write_trailer = 0"
  proof -
    from k have "filter (\<lambda>e. e = Av_write_trailer \<or> is_transcode e) ev1 = []"
      by (simp add: closing_calls_def)
    then have "Av_write_trailer \<notin> set ev1"
      by (auto simp add: filter_empty_conv)
    then show ?thesis by (simp add: count_list_0_iff)
  qed
  have c2: "closing_calls ev2 = ev2"
    unfolding c by (simp add: closing_calls_def ffmpeg_cmd_def lame_cmd_def)
  have t2: "count_list ev2 Av_write_trailer = (if save_file p1 \<and> \<not> doQuit p1 then 1 else 0)"
    unfolding c by simp
  from k c2 t t2 e have r1: "closing_calls evs = ev2"
    and r2: "count_list evs Av_write_trailer = (if save_file p1 \<and> \<not> doQuit p1 then 1 else 0)"
    by simp_all
  from k s have r3: "doQuit p1 = (doQuit p \<or> quit_seen p1)"
    unfolding quit_history_def by blast
  from r1 r2 r3 c show ?thesis
    by simp
qed

lemmas quit_defs = world_quit_playing_def quit_playing_calls_def quit_playing_player_def

theorem trailer_only_without_quit_witness:
  "worker_loop [world_tee] player_save PLAYER_RET_OK
     = Inr (PLAYER_RET_OK, finished_player\<lparr>mode := PLAYER_WAITING\<rparr>,
            saved_calls @ tee_calls @ closed_calls)
   \<and> BarPlayerThread [world_tee] player_save = Inr (PLAYER_RET_OK, finished_player, saving_calls)
   \<and> \<not> quit_seen player_save \<and> \<not> doQuit player_save
   \<and> save_file finished_player \<and> \<not> doQuit finished_player
   \<and> closing_calls saving_calls = closing_example
   \<and> count_list saving_calls Av_write_trailer = 1
   \<and> worker_loop [world_quit] player_save PLAYER_RET_OK
       = Inr (PLAYER_RET_OK, quit_player\<lparr>mode := PLAYER_WAITING\<rparr>, quit_calls)
   \<and> BarPlayerThread [world_quit] player_save = Inr (PLAYER_RET_OK, quit_player, quit_calls)
   \<and> save_file quit_player \<and> quit_seen quit_player \<and> doQuit quit_player
   \<and> closing_calls quit_calls = []
   \<and> count_list quit_calls Av_write_trailer = 0
   \<and> worker_loop [world_quit_playing] player_save PLAYER_RET_OK
       = Inr (PLAYER_RET_OK, quit_playing_player\<lparr>mode := PLAYER_WAITING\<rparr>, quit_playing_calls)
   \<and> BarPlayerThread [world_quit_playing] player_save
       = Inr (PLAYER_RET_OK, quit_playing_player, quit_playing_calls)
   \<and> save_file quit_playing_player \<and> quit_seen quit_playing_player
   \<and> doQuit quit_playing_player
   \<and> closing_calls quit_playing_calls = []
   \<and> count_list quit_playing_calls Av_write_trailer = 0"
proof -
  have wa: "worker_loop [world_tee] player_save PLAYER_RET_OK
     = Inr (PLAYER_RET_OK, finished_player\<lparr>mode := PLAYER_WAITING\<rparr>,
            saved_calls @ tee_calls @ closed_calls)"
    by (simp add: worker_defs example_defs open_defs script_defs play_defs session_defs)
  have a: "BarPlayerThread [world_tee] player_save
             = Inr (PLAYER_RET_OK, finished_player, saving_calls)"
    by (simp add: worker_defs example_defs open_defs script_defs play_defs session_defs)
  have wb: "worker_loop [world_quit] player_save PLAYER_RET_OK
       = Inr (PLAYER_RET_OK, quit_player\<lparr>mode := PLAYER_WAITING\<rparr>, quit_calls)"
    by (simp add: worker_defs example_defs open_defs script_defs play_defs session_defs)
  have b: "BarPlayerThread [world_quit] player_save
             = Inr (PLAYER_RET_OK, quit_player, quit_calls)"
    by (simp add: worker_defs example_defs open_defs script_defs play_defs session_defs)
  have wc: "worker_loop [world_quit_playing] player_save PLAYER_RET_OK
       = Inr (PLAYER_RET_OK, quit_playing_player\<lparr>mode := PLAYER_WAITING\<rparr>, quit_playing_calls)"
    by (simp add: worker_defs example_defs open_defs script_defs play_defs session_defs
        quit_defs)
  have c: "BarPlayerThread [world_quit_playing] player_save
       = Inr (PLAYER_RET_OK, quit_playing_player, quit_playing_calls)"
    by (simp add: worker_defs example_defs open_defs script_defs play_defs session_defs
        quit_defs)
  have i: "\<not> quit_seen player_save" "\<not> doQuit player_save"
    by (simp_all add: example_defs)
  have s: "save_file finished_player" "\<not> doQuit finished_player"
    "save_file quit_player" "doQuit quit_player" "quit_seen quit_player"
    "save_file quit_playing_player" "doQuit quit_playing_player"
    "quit_seen quit_playing_player"
    by (simp_all add: session_defs script_defs example_defs quit_defs)
  have f: "tmp_filename finished_player = ''/tmp/pianobar/MoneyS.aac''"
    "save_complete finished_player = ''/out/AC DC/Back in Black/MoneyS.mp3''"
    "title finished_player = ''Money$''" "sanitize_tag (artist finished_player) = ''AC DC''"
    "sanitize_tag (album finished_player) = ''Back in Black''"
    by (simp_all add: session_defs script_defs example_defs to_mp3_def dquote_def)
  from trailer_only_without_quit [OF wa a i(1)] trailer_only_without_quit [OF wb b i(1)]
    trailer_only_without_quit [OF wc c i(1)] wa a wb b wc c i s f
  show ?thesis
    by (simp add: closing_example_def to_mp3_def)
qed

subsection \<open>Retrying\<close>

lemma openStream_opened:
  assumes a: "openStream w p = Inr (True, q, evs)"
  shows "fctx q \<and> cctx q \<and> streamIdx q = best_stream w \<and> 0 \<le> best_stream w
         \<and> (\<exists>rest. evs = Avformat_open_input
               # (if 0 < lastTimestamp p
                  then [Av_seek_frame (best_stream w) (lastTimestamp p)] else []) @ rest)"
proof -
  define p0 where "p0 = run_async (during_open w) (p\<lparr>fctx := True\<rparr>)"
  have k0: "lastTimestamp p0 = lastTimestamp p" "fctx p0" "save_dir p0 = save_dir p"
    by (simp_all add: p0_def run_async_keeps)
  note b = a [unfolded openStream_def, folded p0_def]
  show ?thesis
  proof (cases "save_dir p0")
    case None
    with b k0 show ?thesis
      by (auto simp add: Let_def split: if_split_asm)
  next
    case (Some d)
    with b obtain p3 ev where s: "open_save w d p3 = Inr (q, ev)"
      and e: "evs = Avformat_open_input
                # (if 0 < lastTimestamp p3
                   then [Av_seek_frame (streamIdx p3) (lastTimestamp p3)] else []) @ ev"
      and k: "lastTimestamp p3 = lastTimestamp p0" "fctx p3" "cctx p3"
        "streamIdx p3 = best_stream w" "0 \<le> best_stream w"
      by (auto simp add: Let_def k0 split: if_split_asm sum.split_asm)
    from open_save_keeps [OF s] e k k0 show ?thesis
      by simp
  qed
qed

lemma enter_play_Some:
  assumes "enter_play w p = Some (p3, ev1)"
  shows "\<exists>p1. openStream w p = Inr (True, p1, ev1) \<and> fst (openFilter w p1) \<and> ao_open_ok w
           \<and> p3 = snd (openFilter w p1)\<lparr>aoDev := True, mode := PLAYER_PLAYING\<rparr>"
  using assms
  by (cases "openStream w p")
    (auto simp add: enter_play_def openDevice_def split: if_split_asm)

lemma openFilter_graph: "fst (openFilter w p) \<Longrightarrow> fgraph (snd (openFilter w p))"
  by (simp add: openFilter_def Let_def split: if_split_asm)

lemma openFilter_ctx:
  "fctx (snd (openFilter w p)) = fctx p \<and> cctx (snd (openFilter w p)) = cctx p"
  by (simp add: openFilter_def Let_def)

lemma enter_play_opened:
  assumes "enter_play w p = Some (p3, ev1)"
  shows "fctx p3 \<and> cctx p3 \<and> fgraph p3 \<and> aoDev p3"
proof -
  from enter_play_Some [OF assms] obtain p1 where
    o: "openStream w p = Inr (True, p1, ev1)" and f: "fst (openFilter w p1)"
    and p3: "p3 = snd (openFilter w p1)\<lparr>aoDev := True, mode := PLAYER_PLAYING\<rparr>"
    by blast
  from openStream_opened [OF o] openFilter_graph [OF f] openFilter_ctx [of w p1] p3
  show ?thesis by simp
qed

lemma attempt_played:
  assumes e: "enter_play w p = Some (p3, ev1)" and pl: "play w p3 = Inr (ret, p4, ev2)"
  shows "attempt w p pret =
           Inr (ret = AVERROR_INVALIDDATA \<and> interrupted p4 = 0, pret,
                fst (finish (p4\<lparr>mode := PLAYER_WAITING\<rparr>)),
                ev1 @ ev2 @ snd (finish (p4\<lparr>mode := PLAYER_WAITING\<rparr>)))"
proof -
  from enter_play_Some [OF e] obtain p1 where
    o: "openStream w p = Inr (True, p1, ev1)" and f: "fst (openFilter w p1) \<and> ao_open_ok w"
    and p3: "p3 = snd (openFilter w p1)\<lparr>aoDev := True, mode := PLAYER_PLAYING\<rparr>"
    by blast
  from cycle_played [OF o f, of pret] pl p3
  have "cycle w p pret
          = Inr (ret = AVERROR_INVALIDDATA \<and> interrupted p4 = 0, pret, p4, ev1 @ ev2)"
    by simp
  then show ?thesis
    by (simp add: attempt_def split: prod.splits)
qed

text \<open>
  C1. When a pass enters \<^verbatim>\<open>play\<close> and \<^verbatim>\<open>play\<close> returns
  \<^verbatim>\<open>AVERROR_INVALIDDATA\<close> with \<^verbatim>\<open>interrupted\<close> equal to 0, the worker retries:
  \<^verbatim>\<open>finish\<close> releases device, filter graph, decoder and demuxer and leaves none of
  them held, \<^verbatim>\<open>lastTimestamp\<close> stays as \<^verbatim>\<open>play\<close> left it, and the rest of the run
  is the \<^verbatim>\<open>do ... while\<close> loop started again from that player. When
  \<^verbatim>\<open>lastTimestamp\<close> is positive, an \<^verbatim>\<open>openStream\<close> that then succeeds calls
  \<^verbatim>\<open>av_seek_frame\<close> on the selected stream with \<^verbatim>\<open>lastTimestamp\<close> right after
  opening the input. For any other value returned by \<^verbatim>\<open>play\<close>, or with
  \<^verbatim>\<open>interrupted\<close> not 0, the loop ends with this pass.
\<close>

theorem retry_on_invalid_data:
  assumes e: "enter_play w p = Some (p3, ev1)" and pl: "play w p3 = Inr (ret, p4, ev2)"
  shows "worker_loop (w # ws) p pret =
           (if ret = AVERROR_INVALIDDATA \<and> interrupted p4 = 0
            then after_calls (ev1 @ ev2 @ snd (finish (p4\<lparr>mode := PLAYER_WAITING\<rparr>)))
                   (worker_loop ws (fst (finish (p4\<lparr>mode := PLAYER_WAITING\<rparr>))) pret)
            else Inr (pret, fst (finish (p4\<lparr>mode := PLAYER_WAITING\<rparr>)),
                      ev1 @ ev2 @ snd (finish (p4\<lparr>mode := PLAYER_WAITING\<rparr>))))
         \<and> concat (map released (snd (finish (p4\<lparr>mode := PLAYER_WAITING\<rparr>))))
             = [Device, Graph, Decoder, Demuxer]
         \<and> filter (holds (fst (finish (p4\<lparr>mode := PLAYER_WAITING\<rparr>))))
              [Device, Graph, Decoder, Demuxer] = []
         \<and> lastTimestamp (fst (finish (p4\<lparr>mode := PLAYER_WAITING\<rparr>))) = lastTimestamp p4
         \<and> (0 < lastTimestamp p4 \<longrightarrow>
              openStream w' (fst (finish (p4\<lparr>mode := PLAYER_WAITING\<rparr>))) = Inr (True, q', ev')
              \<longrightarrow> (\<exists>rest. ev' = Avformat_open_input
                            # Av_seek_frame (streamIdx q') (lastTimestamp p4) # rest))"
proof -
  define q where "q = fst (finish (p4\<lparr>mode := PLAYER_WAITING\<rparr>))"
  define fin where "fin = snd (finish (p4\<lparr>mode := PLAYER_WAITING\<rparr>))"
  note a = attempt_played [OF e pl, of pret, folded q_def fin_def]
  have loop: "worker_loop (w # ws) p pret =
           (if ret = AVERROR_INVALIDDATA \<and> interrupted p4 = 0
            then after_calls (ev1 @ ev2 @ fin) (worker_loop ws q pret)
            else Inr (pret, q, ev1 @ ev2 @ fin))"
    by (simp add: a)
  from enter_play_opened [OF e] have "fctx p3 \<and> cctx p3 \<and> fgraph p3 \<and> aoDev p3" .
  with play_loop_keeps [OF pl [unfolded play_def]]
  have o4: "fctx p4 \<and> cctx p4 \<and> fgraph p4 \<and> aoDev p4" by simp
  then have rel: "concat (map released fin) = [Device, Graph, Decoder, Demuxer]"
    and clo: "filter (holds q) [Device, Graph, Decoder, Demuxer] = []"
    by (simp_all add: fin_def q_def finish_def holds_def)
  have ts: "lastTimestamp q = lastTimestamp p4"
    by (simp add: q_def finish_def)
  have seek: "0 < lastTimestamp p4 \<longrightarrow> openStream w' q = Inr (True, q', ev')
      \<longrightarrow> (\<exists>rest. ev' = Avformat_open_input
                    # Av_seek_frame (streamIdx q') (lastTimestamp p4) # rest)"
  proof (intro impI)
    assume pos: "0 < lastTimestamp p4" and o: "openStream w' q = Inr (True, q', ev')"
    from openStream_opened [OF o] pos ts
    show "\<exists>rest. ev' = Avformat_open_input
                    # Av_seek_frame (streamIdx q') (lastTimestamp p4) # rest"
      by auto
  qed
  from loop rel clo ts seek show ?thesis
    by (simp only: q_def fin_def) 
qed

lemmas retry_defs = playing0_def failed_calls_def failed_player_def waiting_player_def
  reopened_player_def world_corrupt_interrupted_def

theorem retry_on_invalid_data_witness:
  "enter_play world_corrupt player0 = Some (playing0, [Avformat_open_input])
   \<and> play world_corrupt playing0
       = Inr (AVERROR_INVALIDDATA, failed_player, failed_calls AVERROR_INVALIDDATA)
   \<and> interrupted failed_player = 0
   \<and> worker_loop [world_corrupt, world_one] player0 PLAYER_RET_OK
       = after_calls ([Avformat_open_input] @ failed_calls AVERROR_INVALIDDATA @ closed_calls)
           (worker_loop [world_one] waiting_player PLAYER_RET_OK)
   \<and> lastTimestamp waiting_player = 1024
   \<and> openStream world_one waiting_player
       = Inr (True, reopened_player, [Avformat_open_input, Av_seek_frame 0 1024])
   \<and> play world_io_error playing0 = Inr (- 5, failed_player, failed_calls (- 5))
   \<and> worker_loop [world_io_error, world_one] player0 PLAYER_RET_OK
       = Inr (PLAYER_RET_OK, waiting_player,
              [Avformat_open_input] @ failed_calls (- 5) @ closed_calls)
   \<and> play world_corrupt_interrupted playing0
       = Inr (AVERROR_INVALIDDATA, failed_player\<lparr>interrupted := 1\<rparr>,
              failed_calls AVERROR_INVALIDDATA)
   \<and> worker_loop [world_corrupt_interrupted, world_one] player0 PLAYER_RET_OK
       = Inr (PLAYER_RET_OK, waiting_player\<lparr>interrupted := 1\<rparr>,
              [Avformat_open_input] @ failed_calls AVERROR_INVALIDDATA @ closed_calls)"
proof -
  have e1: "enter_play world_corrupt player0 = Some (playing0, [Avformat_open_input])"
    and e2: "enter_play world_io_error player0 = Some (playing0, [Avformat_open_input])"
    and e3: "enter_play world_corrupt_interrupted player0
               = Some (playing0, [Avformat_open_input])"
    by (simp_all add: enter_play_def worker_defs example_defs open_defs script_defs retry_defs)
  have p1: "play world_corrupt playing0
              = Inr (AVERROR_INVALIDDATA, failed_player, failed_calls AVERROR_INVALIDDATA)"
    and p2: "play world_io_error playing0 = Inr (- 5, failed_player, failed_calls (- 5))"
    and p3: "play world_corrupt_interrupted playing0
               = Inr (AVERROR_INVALIDDATA, failed_player\<lparr>interrupted := 1\<rparr>,
                      failed_calls AVERROR_INVALIDDATA)"
    by (simp_all add: example_defs script_defs play_defs retry_defs av_q2d_def)
  have f: "finish (failed_player\<lparr>mode := PLAYER_WAITING\<rparr>) = (waiting_player, closed_calls)"
    "finish (failed_player\<lparr>interrupted := 1, mode := PLAYER_WAITING\<rparr>)
       = (waiting_player\<lparr>interrupted := 1\<rparr>, closed_calls)"
    by (simp_all add: finish_def retry_defs example_defs closed_calls_def)
  have i: "interrupted failed_player = 0" "lastTimestamp failed_player = 1024"
    "lastTimestamp waiting_player = 1024"
    by (simp_all add: retry_defs example_defs)
  have o: "openStream world_one waiting_player
             = Inr (True, reopened_player, [Avformat_open_input, Av_seek_frame 0 1024])"
    by (simp add: example_defs open_defs script_defs retry_defs)
  from retry_on_invalid_data [OF e1 p1, of "[world_one]" PLAYER_RET_OK world_one
      reopened_player "[Avformat_open_input, Av_seek_frame 0 1024]"]
    retry_on_invalid_data [OF e2 p2, of "[world_one]" PLAYER_RET_OK]
    retry_on_invalid_data [OF e3 p3, of "[world_one]" PLAYER_RET_OK]
    e1 p1 p2 p3 f i o
  show ?thesis
    by (simp add: AVERROR_INVALIDDATA_def)
qed

subsection \<open>The value the worker returns\<close>

lemma last_pass_pret:
  "last_pass ws p pret = Some (w, pl, pr) \<Longrightarrow> pr = pret"
proof (induction ws arbitrary: p pret)
  case Nil
  then show ?case by simp
next
  case (Cons v ws)
  from Cons.prems obtain retry pret' p' ev where
    a: "attempt v p pret = Inr (retry, pret', p', ev)"
    by (cases "attempt v p pret") (auto split: prod.splits)
  show ?case
  proof (cases retry)
    case True
    with Cons.prems a have "last_pass ws p' pret' = Some (w, pl, pr)" by simp
    from Cons.IH [OF this] attempt_keeps(3) [OF a] True show ?thesis by simp
  next
    case False
    with Cons.prems a show ?thesis by simp
  qed
qed

lemma worker_loop_last_pass:
  "worker_loop ws p pret = Inr (r, q, evs) \<Longrightarrow>
     \<exists>w pl pr q' evs'. last_pass ws p pret = Some (w, pl, pr)
        \<and> attempt w pl pr = Inr (False, r, q', evs')"
proof (induction ws arbitrary: p pret evs)
  case Nil
  then show ?case by simp
next
  case (Cons v ws)
  from Cons.prems obtain retry pret' p' ev where
    a: "attempt v p pret = Inr (retry, pret', p', ev)"
    by (cases "attempt v p pret") (auto split: prod.splits)
  show ?case
  proof (cases retry)
    case True
    with Cons.prems a obtain ev' where "worker_loop ws p' pret' = Inr (r, q, ev')"
      by (auto simp add: after_calls_Inr)
    from Cons.IH [OF this] a True show ?thesis by simp
  next
    case False
    with Cons.prems a show ?thesis by auto
  qed
qed

lemma attempt_last:
  assumes "attempt w p pret = Inr (False, r, q, evs)"
  shows "(r = PLAYER_RET_SOFTFAIL \<and> (\<exists>p1 e1. openStream w p = Inr (False, p1, e1)))
         \<or> (r = PLAYER_RET_HARDFAIL \<and> enter_play w p = None)
         \<or> (r = pret \<and> enter_play w p \<noteq> None)"
proof -
  from assms obtain p1 ev1 where "cycle w p pret = Inr (False, r, p1, ev1)"
    by (auto simp add: attempt_Inr)
  then show ?thesis
    by (cases rule: cycle_cases) auto
qed

text \<open>
  C10. When a pass enters \<^verbatim>\<open>play\<close> and \<^verbatim>\<open>play\<close> returns a value other than
  \<^verbatim>\<open>AVERROR_INVALIDDATA\<close>, the loop ends with this pass and leaves \<^verbatim>\<open>pret\<close> as it
  was; a run of the worker whose last pass is this one returns \<^verbatim>\<open>PLAYER_RET_OK\<close>, as
  a clean completion does; and a run returns \<^verbatim>\<open>PLAYER_RET_SOFTFAIL\<close> only when
  \<^verbatim>\<open>openStream\<close> failed in its last pass, in which \<^verbatim>\<open>play\<close> is not entered.
\<close>

theorem other_errors_return_ok:
  assumes e: "enter_play w p = Some (p3, ev1)" and pl: "play w p3 = Inr (ret, p4, ev2)"
    and ne: "ret \<noteq> AVERROR_INVALIDDATA"
  shows "worker_loop (w # ws) p pret
           = Inr (pret, fst (finish (p4\<lparr>mode := PLAYER_WAITING\<rparr>)),
                  ev1 @ ev2 @ snd (finish (p4\<lparr>mode := PLAYER_WAITING\<rparr>)))
         \<and> (last_pass ws0 p0 PLAYER_RET_OK = Some (w, p, pr) \<longrightarrow>
              BarPlayerThread ws0 p0 = Inr (r, q, evs) \<longrightarrow> r = PLAYER_RET_OK)
         \<and> (BarPlayerThread ws1 p1 = Inr (PLAYER_RET_SOFTFAIL, q1, evs1) \<longrightarrow>
              (\<exists>w' p' pr' p1' e1. last_pass ws1 p1 PLAYER_RET_OK = Some (w', p', pr')
                 \<and> openStream w' p' = Inr (False, p1', e1)))"
proof -
  note a = attempt_played [OF e pl]
  from ne have loop: "worker_loop (w # ws) p pret
           = Inr (pret, fst (finish (p4\<lparr>mode := PLAYER_WAITING\<rparr>)),
                  ev1 @ ev2 @ snd (finish (p4\<lparr>mode := PLAYER_WAITING\<rparr>)))"
    by (simp add: a)
  have last: "r = PLAYER_RET_OK"
    if lp: "last_pass ws0 p0 PLAYER_RET_OK = Some (w, p, pr)"
      and b: "BarPlayerThread ws0 p0 = Inr (r, q, evs)"
  proof -
    from b obtain q' evs' where wl: "worker_loop ws0 p0 PLAYER_RET_OK = Inr (r, q', evs')"
      by (auto simp add: BarPlayerThread_def split: sum.split_asm prod.split_asm)
    from worker_loop_last_pass [OF wl] lp obtain q'' evs'' where
      "attempt w p pr = Inr (False, r, q'', evs'')" by auto
    with a [of pr] last_pass_pret [OF lp] show ?thesis by simp
  qed
  have soft: "\<exists>w' p' pr' p1' e1. last_pass ws1 p1 PLAYER_RET_OK = Some (w', p', pr')
                 \<and> openStream w' p' = Inr (False, p1', e1)"
    if b: "BarPlayerThread ws1 p1 = Inr (PLAYER_RET_SOFTFAIL, q1, evs1)"
  proof -
    from b obtain q' evs' where
      wl: "worker_loop ws1 p1 PLAYER_RET_OK = Inr (PLAYER_RET_SOFTFAIL, q', evs')"
      by (auto simp add: BarPlayerThread_def split: sum.split_asm prod.split_asm)
    from worker_loop_last_pass [OF wl] obtain w' p' pr' q'' evs'' where
      lp: "last_pass ws1 p1 PLAYER_RET_OK = Some (w', p', pr')"
      and at: "attempt w' p' pr' = Inr (False, PLAYER_RET_SOFTFAIL, q'', evs'')" by blast
    from attempt_last [OF at] last_pass_pret [OF lp] lp show ?thesis by auto
  qed
  from loop last soft show ?thesis by blast
qed

theorem other_errors_return_ok_witness:
  "enter_play world_io_error waiting_player
     = Some (replaying_player, [Avformat_open_input, Av_seek_frame 0 1024])
   \<and> play world_io_error replaying_player = Inr (- 5, failed_player, failed_calls (- 5))
   \<and> - 5 \<noteq> AVERROR_INVALIDDATA
   \<and> worker_loop [world_io_error, world_one] waiting_player PLAYER_RET_OK
       = Inr (PLAYER_RET_OK, waiting_player,
              [Avformat_open_input, Av_seek_frame 0 1024] @ failed_calls (- 5) @ closed_calls)
   \<and> last_pass [world_corrupt, world_io_error] player0 PLAYER_RET_OK
       = Some (world_io_error, waiting_player, PLAYER_RET_OK)
   \<and> BarPlayerThread [world_corrupt, world_io_error] player0
       = Inr (PLAYER_RET_OK, waiting_player\<lparr>mode := PLAYER_FINISHED\<rparr>,
              [Avformat_open_input] @ failed_calls AVERROR_INVALIDDATA @ closed_calls
              @ [Avformat_open_input, Av_seek_frame 0 1024] @ failed_calls (- 5) @ closed_calls)
   \<and> BarPlayerThread [world_unreachable] player0
       = Inr (PLAYER_RET_SOFTFAIL, player0\<lparr>mode := PLAYER_FINISHED\<rparr>,
              [Avformat_open_input, Ao_close False])
   \<and> last_pass [world_unreachable] player0 PLAYER_RET_OK
       = Some (world_unreachable, player0, PLAYER_RET_OK)
   \<and> openStream world_unreachable player0 = Inr (False, player0, [Avformat_open_input])"
proof -
  have e: "enter_play world_io_error waiting_player
             = Some (replaying_player, [Avformat_open_input, Av_seek_frame 0 1024])"
    by (simp add: enter_play_def worker_defs example_defs open_defs script_defs retry_defs
        replaying_player_def)
  have pl: "play world_io_error replaying_player = Inr (- 5, failed_player, failed_calls (- 5))"
    by (simp add: example_defs script_defs play_defs retry_defs replaying_player_def av_q2d_def)
  have ne: "- 5 \<noteq> AVERROR_INVALIDDATA"
    by (simp add: AVERROR_INVALIDDATA_def)
  have f: "finish (failed_player\<lparr>mode := PLAYER_WAITING\<rparr>) = (waiting_player, closed_calls)"
    by (simp add: finish_def retry_defs example_defs closed_calls_def)
  have a1: "attempt world_corrupt player0 PLAYER_RET_OK
              = Inr (True, PLAYER_RET_OK, waiting_player,
                     [Avformat_open_input] @ failed_calls AVERROR_INVALIDDATA @ closed_calls)"
    by (simp add: worker_defs example_defs open_defs script_defs play_defs retry_defs
        closed_calls_def av_q2d_def)
  have a2: "attempt world_io_error waiting_player PLAYER_RET_OK
              = Inr (False, PLAYER_RET_OK, waiting_player,
                     [Avformat_open_input, Av_seek_frame 0 1024] @ failed_calls (- 5)
                     @ closed_calls)"
    using attempt_played [OF e pl, of PLAYER_RET_OK] ne f by simp
  have lp: "last_pass [world_corrupt, world_io_error] player0 PLAYER_RET_OK
              = Some (world_io_error, waiting_player, PLAYER_RET_OK)"
    by (simp add: a1 a2)
  have wl: "worker_loop [world_corrupt, world_io_error] player0 PLAYER_RET_OK
       = Inr (PLAYER_RET_OK, waiting_player,
              [Avformat_open_input] @ failed_calls AVERROR_INVALIDDATA @ closed_calls
              @ [Avformat_open_input, Av_seek_frame 0 1024] @ failed_calls (- 5) @ closed_calls)"
    by (simp add: a1 a2 after_calls_def)
  have pp: "post_play (waiting_player\<lparr>mode := PLAYER_FINISHED\<rparr>) = Inr []"
    by (simp add: post_play_def retry_defs example_defs)
  have b: "BarPlayerThread [world_corrupt, world_io_error] player0
       = Inr (PLAYER_RET_OK, waiting_player\<lparr>mode := PLAYER_FINISHED\<rparr>,
              [Avformat_open_input] @ failed_calls AVERROR_INVALIDDATA @ closed_calls
              @ [Avformat_open_input, Av_seek_frame 0 1024] @ failed_calls (- 5) @ closed_calls)"
    unfolding BarPlayerThread_def wl by (simp add: pp)
  have o: "openStream world_unreachable player0 = Inr (False, player0, [Avformat_open_input])"
    by (simp add: openStream_def world_unreachable_def world0_def player0_def)
  have a3: "attempt world_unreachable player0 PLAYER_RET_OK
              = Inr (False, PLAYER_RET_SOFTFAIL, player0, [Avformat_open_input, Ao_close False])"
  proof -
    have "finish (player0\<lparr>mode := PLAYER_WAITING\<rparr>) = (player0, [Ao_close False])"
      by (simp add: finish_def player0_def)
    then show ?thesis
      by (simp add: attempt_def cycle_def o)
  qed
  have s: "BarPlayerThread [world_unreachable] player0
       = Inr (PLAYER_RET_SOFTFAIL, player0\<lparr>mode := PLAYER_FINISHED\<rparr>,
              [Avformat_open_input, Ao_close False])"
  proof -
    have "post_play (player0\<lparr>mode := PLAYER_FINISHED\<rparr>) = Inr []"
      by (simp add: post_play_def player0_def)
    then show ?thesis
      by (simp add: BarPlayerThread_def a3 del: worker_loop.simps)
        (simp add: a3)
  qed
  have l3: "last_pass [world_unreachable] player0 PLAYER_RET_OK
       = Some (world_unreachable, player0, PLAYER_RET_OK)"
    by (simp add: a3)
  from other_errors_return_ok [OF e pl ne, of "[world_one]" PLAYER_RET_OK
      "[world_corrupt, world_io_error]" player0 PLAYER_RET_OK PLAYER_RET_OK
      "waiting_player\<lparr>mode := PLAYER_FINISHED\<rparr>" _ "[world_unreachable]" player0]
    e pl ne f lp b s l3 o
  show ?thesis
    by simp
qed

end
